theory Spec2Isabelle
  imports Main "HOL-Library.Multiset" "HOL-Library.AList"
begin

section \<open>Python strings and the regular expressions of the scraper\<close>

text \<open>
  A Python \<open>str\<close> is a sequence of code points. The model reads a \<^typ>\<open>char\<close> as one
  code point in the range 0..255, so a \<^typ>\<open>string\<close> is a Python string over that range.
  The character classes below are the ones Python's \<open>re\<close> module uses for \<open>str\<close>
  patterns (\<open>\d\<close>, \<open>\s\<close>, \<open>\w\<close>), restricted to that range.
\<close>

definition ord :: "char \<Rightarrow> nat" where
  "ord c = of_char c"

definition chr :: "nat \<Rightarrow> char" where
  "chr n = char_of n"

definition is_digit :: "char \<Rightarrow> bool" where
  \<comment> \<open>\<open>\d\<close>: decimal digits\<close>
  "is_digit c \<longleftrightarrow> 48 \<le> ord c \<and> ord c \<le> 57"

definition is_space :: "char \<Rightarrow> bool" where
  \<comment> \<open>\<open>\s\<close>: tab, newline, vertical tab, form feed, carriage return, the separators
      0x1C..0x1F, space, NEL and the no-break space\<close>
  "is_space c \<longleftrightarrow>
     (9 \<le> ord c \<and> ord c \<le> 13) \<or> (28 \<le> ord c \<and> ord c \<le> 32) \<or> ord c = 133 \<or> ord c = 160"

definition is_word :: "char \<Rightarrow> bool" where
  \<comment> \<open>\<open>\w\<close>: alphanumeric code points and the underscore; \<open>\W\<close> is its negation\<close>
  "is_word c \<longleftrightarrow>
     (48 \<le> ord c \<and> ord c \<le> 57) \<or> (65 \<le> ord c \<and> ord c \<le> 90) \<or> ord c = 95 \<or>
     (97 \<le> ord c \<and> ord c \<le> 122) \<or>
     ord c \<in> {170, 178, 179, 181, 185, 186, 188, 189, 190} \<or>
     (192 \<le> ord c \<and> ord c \<le> 214) \<or> (216 \<le> ord c \<and> ord c \<le> 246) \<or> 248 \<le> ord c"

definition lower_char :: "char \<Rightarrow> char" where
  "lower_char c =
     (if (65 \<le> ord c \<and> ord c \<le> 90) \<or> (192 \<le> ord c \<and> ord c \<le> 222 \<and> ord c \<noteq> 215)
      then chr (ord c + 32) else c)"

definition py_lower :: "string \<Rightarrow> string" where
  \<comment> \<open>\<open>str.lower()\<close>\<close>
  "py_lower s = map lower_char s"

definition upper_char :: "char \<Rightarrow> char" where
  \<comment> \<open>the code points whose upper case lies in the range of the model; the scraper calls
      \<open>upper()\<close> on the output of \<open>hex\<close> only\<close>
  "upper_char c =
     (if (97 \<le> ord c \<and> ord c \<le> 122) \<or> (224 \<le> ord c \<and> ord c \<le> 254 \<and> ord c \<noteq> 247)
      then chr (ord c - 32) else c)"

definition py_upper :: "string \<Rightarrow> string" where
  \<comment> \<open>\<open>str.upper()\<close>\<close>
  "py_upper s = map upper_char s"

function py_replace :: "string \<Rightarrow> string \<Rightarrow> string \<Rightarrow> string" where
  \<comment> \<open>\<open>s.replace(old, new)\<close>: every non-overlapping occurrence, from the left\<close>
  "py_replace old new [] = (if old = [] then new else [])"
| "py_replace old new (c # cs) =
     (if old = [] then new @ c # py_replace old new cs
      else if take (length old) (c # cs) = old
        then new @ py_replace old new (drop (length old) (c # cs))
      else c # py_replace old new cs)"
  by pat_completeness auto
termination
  by (relation "measure (\<lambda>(old, new, s). length s)") auto

fun py_join :: "string \<Rightarrow> string list \<Rightarrow> string" where
  \<comment> \<open>\<open>sep.join(xs)\<close>\<close>
  "py_join sep [] = []"
| "py_join sep [x] = x"
| "py_join sep (x # y # ys) = x @ sep @ py_join sep (y # ys)"

definition hex_digit :: "nat \<Rightarrow> char" where
  "hex_digit d = ''0123456789abcdef'' ! d"

fun hex_digits :: "nat \<Rightarrow> string" where
  "hex_digits n =
     (if n < 16 then [hex_digit n] else hex_digits (n div 16) @ [hex_digit (n mod 16)])"

definition py_hex :: "nat \<Rightarrow> string" where
  \<comment> \<open>\<open>hex(n)\<close>: lower-case digits, no padding\<close>
  "py_hex n = ''0x'' @ hex_digits n"

definition is_dot :: "char \<Rightarrow> bool" where
  "is_dot c \<longleftrightarrow> c = CHR ''.''"

function findall_numbers :: "string \<Rightarrow> string list" where
  \<comment> \<open>\<open>re.findall(r"\d+\.*\d*", value)\<close>: the leftmost match starts at the first digit;
      each of the three greedy parts takes all it can, and none has to give anything back\<close>
  "findall_numbers [] = []"
| "findall_numbers (c # cs) =
     (if is_digit c then
        (let intpart = takeWhile is_digit (c # cs); r1 = dropWhile is_digit (c # cs);
             dots = takeWhile is_dot r1; r2 = dropWhile is_dot r1;
             frac = takeWhile is_digit r2; r3 = dropWhile is_digit r2
         in (intpart @ dots @ frac) # findall_numbers r3)
      else findall_numbers cs)"
  by pat_completeness auto
termination
  by (relation "measure length")
     (auto intro!: le_imp_less_Suc intro: order_trans [OF length_dropWhile_le])

definition spec_value :: "string \<Rightarrow> string" where
  \<comment> \<open>\<open>get_specs\<close>, the value of one entry:
      \<open>all_finds = re.findall(r"\d+\.*\d*", value)\<close>; \<open>"/".join(all_finds)\<close>\<close>
  "spec_value v = py_join ''/'' (findall_numbers v)"

definition is_integer_or_decimal :: "string \<Rightarrow> bool" where
  \<comment> \<open>the reading of "integer or decimal numeric substring": digits, then at most one
      dot, then digits (a trailing dot as in \<open>5.\<close> is let through)\<close>
  "is_integer_or_decimal s \<longleftrightarrow>
     (let r = dropWhile is_digit s
      in takeWhile is_digit s \<noteq> [] \<and>
         (r = [] \<or> (is_dot (hd r) \<and> list_all is_digit (tl r))))"

definition number_match :: "string \<Rightarrow> bool" where
  \<comment> \<open>what the pattern matches: one or more digits, any number of dots, any number of
      digits\<close>
  "number_match m \<longleftrightarrow>
     (let r = dropWhile is_digit m
      in takeWhile is_digit m \<noteq> [] \<and> list_all is_digit (dropWhile is_dot r))"

definition leftmost_match :: "string \<Rightarrow> string \<Rightarrow> string \<Rightarrow> string \<Rightarrow> string \<Rightarrow> string \<Rightarrow> bool" where
  \<comment> \<open>the leftmost greedy match of \<open>\d+\.*\d*\<close> in \<open>v\<close>, said without the scanner: \<open>v\<close> is a part
      without digits, a run \<open>ds\<close> of digits, a run of dots, a run \<open>fr\<close> of digits and a rest,
      and no run can be made longer\<close>
  "leftmost_match v gap ds dots fr rest \<longleftrightarrow>
     v = gap @ ds @ dots @ fr @ rest \<and>
     (\<forall>c\<in>set gap. \<not> is_digit c) \<and>
     ds \<noteq> [] \<and> (\<forall>c\<in>set ds. is_digit c) \<and>
     (\<forall>c\<in>set dots. is_dot c) \<and>
     (\<forall>c\<in>set fr. is_digit c) \<and>
     (dots = [] \<longrightarrow> fr = []) \<and>
     (rest \<noteq> [] \<longrightarrow> \<not> is_digit (hd rest) \<and> (fr = [] \<longrightarrow> \<not> is_dot (hd rest)))"

section \<open>Sets, dictionaries and errors\<close>

text \<open>
  A Python \<open>set\<close> that the code iterates over is the list of its elements in iteration
  order. The order of a hash set is not fixed by its contents, so it is a parameter: a
  function from the elements in insertion order to the order of iteration.
\<close>

definition iteration_order :: "('a list \<Rightarrow> 'a list) \<Rightarrow> bool" where
  "iteration_order order \<longleftrightarrow> (\<forall>xs. mset (order xs) = mset xs)"

definition py_set :: "('a list \<Rightarrow> 'a list) \<Rightarrow> 'a list \<Rightarrow> 'a list" where
  \<comment> \<open>\<open>set(xs)\<close>, as the sequence an iteration over it yields\<close>
  "py_set order xs = order (remdups xs)"

datatype py_error =
  ValueError | TypeError | AttributeError | KeyError | IndexError | UnboundLocalError
  | SyntaxError | WebDriverException

definition then_do ::
  "(py_error + 'a) \<times> 's \<Rightarrow> ('a \<Rightarrow> 's \<Rightarrow> (py_error + 'b) \<times> 's) \<Rightarrow> (py_error + 'b) \<times> 's" where
  \<comment> \<open>one statement after another: an exception ends the sequence\<close>
  "then_do r f = (case r of (Inl e, s) \<Rightarrow> (Inl e, s) | (Inr a, s) \<Rightarrow> f a s)"

section \<open>CAD URL escaping (\<open>download_cad\<close>)\<close>

definition hex_ascii :: "char \<Rightarrow> string" where
  \<comment> \<open>\<open>hex(ord(c)).replace("0x", "%").upper()\<close>\<close>
  "hex_ascii c = py_upper (py_replace ''0x'' ''%'' (py_hex (ord c)))"

definition re_sub_char :: "char \<Rightarrow> string \<Rightarrow> string \<Rightarrow> string" where
  \<comment> \<open>\<open>re.sub(rf"\{c}", repl, s)\<close> for a non-word character \<open>c\<close>: the pattern is the
      escaped literal \<open>c\<close>, and \<open>repl\<close> holds no backslash\<close>
  "re_sub_char c repl s = concat (map (\<lambda>x. if x = c then repl else [x]) s)"

fun escape_loop :: "char list \<Rightarrow> string \<Rightarrow> string" where
  \<comment> \<open>\<open>for c in non_words_char: ... url_string = re.sub(...)\<close>\<close>
  "escape_loop [] url_string = url_string"
| "escape_loop (c # cs) url_string = escape_loop cs (re_sub_char c (hex_ascii c) url_string)"

definition non_words_char :: "(char list \<Rightarrow> char list) \<Rightarrow> string \<Rightarrow> char list" where
  \<comment> \<open>\<open>set(re.findall(r"\W", url_string))\<close>\<close>
  "non_words_char order url_string = py_set order (filter (\<lambda>c. \<not> is_word c) url_string)"

definition escape_url :: "(char list \<Rightarrow> char list) \<Rightarrow> string \<Rightarrow> string" where
  "escape_url order url_string = escape_loop (non_words_char order url_string) url_string"

definition upper_hex_digit :: "nat \<Rightarrow> char" where
  "upper_hex_digit d = ''0123456789ABCDEF'' ! d"

definition percent_encode :: "string \<Rightarrow> string" where
  \<comment> \<open>the escaping as the specification words it: every character that is not
      alphanumeric or underscore becomes \<open>%\<close> and the two upper-case hexadecimal digits
      of its code point, every other character stays\<close>
  "percent_encode s =
     concat (map (\<lambda>c. if is_word c then [c]
        else [CHR ''%'', upper_hex_digit (ord c div 16), upper_hex_digit (ord c mod 16)]) s)"

section \<open>Specification table (\<open>get_specs\<close>)\<close>

definition label_key :: "string \<Rightarrow> string" where
  \<comment> \<open>\<open>label.replace(" ", "_").lower()\<close>\<close>
  "label_key label = py_lower (py_replace '' '' ''_'' label)"

fun specs_loop :: "(string \<times> string) list \<Rightarrow> (string \<times> string) list \<Rightarrow> (string \<times> string) list" where
  \<comment> \<open>\<open>for label, value in zip(...): spec_dict[label] = ...\<close>; the dictionary is an
      association list in insertion order, a repeated key keeps its place and takes the
      new value\<close>
  "specs_loop [] spec_dict = spec_dict"
| "specs_loop ((label, value) # rest) spec_dict =
     specs_loop rest (AList.update (label_key label) (spec_value value) spec_dict)"

definition build_specs :: "string list \<Rightarrow> string list \<Rightarrow> (string \<times> string) list" where
  \<comment> \<open>lines 109 to 116 of \<open>get_specs\<close>\<close>
  "build_specs spec_labels spec_values =
     specs_loop (zip (filter (\<lambda>a. a \<noteq> []) spec_labels) (filter (\<lambda>a. a \<noteq> []) spec_values)) []"

section \<open>The world of one run\<close>

text \<open>
  The collaborators of the scraper are parameters of the model: what an HTTP GET does,
  what the browser renders, what the parsers of the libraries return. The rendered page
  is the record of what each fixed selector of the scraper finds on it.
\<close>

datatype http_outcome =
  Response string       \<comment> \<open>a response that passes \<open>raise_for_status\<close>, with its body\<close>
  | Timeout | ConnectionError | HTTPError
  | OtherException      \<comment> \<open>any other exception of \<open>requests.get\<close>, such as too many redirects\<close>

datatype level = INFO | WARNING | ERROR | SUCCESS

datatype pyval =
  PStr string | PInt int | PNone | PList "pyval list" | PDict "(string \<times> pyval) list"

datatype 'f cell = Str string | Num 'f | NaN

datatype 'f column =
  TextCol "string option list"   \<comment> \<open>object dtype: text cells, \<open>None\<close> for a missing cell (NaN)\<close>
  | NumCol "'f option list"      \<comment> \<open>numeric dtype\<close>

type_synonym 'f dataframe = "(string \<times> 'f column) list"

record page =
  page_title :: "string option"            \<comment> \<open>text of \<open>div.page-title\<close>\<close>
  product_description :: "string option"   \<comment> \<open>text of \<open>div.product-description\<close>\<close>
  specs_tab :: bool                        \<comment> \<open>\<open>//li[@data-tab='specs']\<close> is there\<close>
  span_label :: "string list option"       \<comment> \<open>texts of \<open>span.label\<close>\<close>
  span_value :: "string list option"       \<comment> \<open>texts of \<open>span.value\<close>\<close>
  parts_tab :: bool
  parts_pane :: "string option"            \<comment> \<open>outerHTML of the active parts pane\<close>
  drawings_tab :: bool
  product_image :: "string option"         \<comment> \<open>\<open>src\<close> of \<open>//img[@class='product-image']\<close>\<close>
  info_packet :: "string option"           \<comment> \<open>\<open>href\<close> of \<open>//a[@id='infoPacket']\<close>\<close>
  cadfiles :: "string option"              \<comment> \<open>\<open>ng-init\<close> of the cadfiles section\<close>

record assets_metadata =
  image :: "string option"
  manual :: "string option"
  cad :: "(pyval \<times> string) list option"

record 'f json_schema =
  product_id :: "string option"
  name :: "string option"
  description :: "string option"
  specs :: "(string \<times> string) list option"
  bom :: "(string \<times> 'f cell) list list option"
  assets :: "assets_metadata option"

datatype 'f written = Json "'f json_schema" | Bytes string

datatype write_outcome = Written | RaisesTypeError | RaisesIOError | RaisesOther

record 'f state =
  product_info :: "'f json_schema"     \<comment> \<open>\<open>self.product_info\<close>\<close>
  driver :: "page option"              \<comment> \<open>\<open>self.connection.driver\<close>, the page it shows\<close>
  sessions :: nat                      \<comment> \<open>browser sessions started and not quit\<close>
  logged :: "(level \<times> string) list"
  dirs :: "string list"
  files :: "(string \<times> 'f written) list"   \<comment> \<open>every completed write, in order\<close>

record 'f env =
  http_get :: "string \<Rightarrow> http_outcome"
  xml_texts :: "string \<Rightarrow> string \<Rightarrow> string list"
    \<comment> \<open>\<open>etree.iterparse\<close>: the texts of the elements of a body that carry a tag\<close>
  render :: "string \<Rightarrow> page option"
    \<comment> \<open>\<open>driver.get\<close>: the page, or \<open>None\<close> when the browser raises\<close>
  read_html :: "string \<Rightarrow> py_error + 'f dataframe list"
  to_float :: "string \<Rightarrow> 'f option"
    \<comment> \<open>the conversion behind \<open>astype(float)\<close>, \<open>None\<close> when it raises ValueError\<close>
  literal_eval :: "string \<Rightarrow> py_error + pyval"
  json_dump :: "string \<Rightarrow> 'f json_schema \<Rightarrow> write_outcome"
    \<comment> \<open>\<open>open\<close> and \<open>json.dump\<close> inside \<open>json_write\<close>\<close>
  set_order :: "string list \<Rightarrow> string list"
  char_order :: "char list \<Rightarrow> char list"
  sample :: "string list \<Rightarrow> nat \<Rightarrow> string list"
    \<comment> \<open>the draw of \<open>random.sample\<close>\<close>
  default_url_download :: string
    \<comment> \<open>the constructor argument of \<open>ABBScrapping\<close>\<close>

definition CATALOG_URL :: string where
  "CATALOG_URL = ''https://www.baldor.com/api/products?include=results&language=en-US&pageSize=20000''"

definition PRODUCT_URL :: string where
  "PRODUCT_URL = ''https://www.baldor.com/catalog/''"

definition PRODUCT_CODE_TAG :: string where
  "PRODUCT_CODE_TAG = ''{http://schemas.datacontract.org/2004/07/Baldor.ProductData.Service}Code''"

definition JsonSchema :: "'f json_schema" where
  \<comment> \<open>the dataclass with its defaults\<close>
  "JsonSchema = \<lparr>product_id = None, name = None, description = None, specs = None,
     bom = None, assets = None\<rparr>"

definition log_msg :: "level \<Rightarrow> string \<Rightarrow> 'f state \<Rightarrow> 'f state" where
  "log_msg l m st = st\<lparr>logged := logged st @ [(l, m)]\<rparr>"

definition str_of :: "string option \<Rightarrow> string" where
  \<comment> \<open>a value inside an f-string\<close>
  "str_of x = (case x of None \<Rightarrow> ''None'' | Some s \<Rightarrow> s)"

section \<open>HTTP requests (\<open>wrappers/request.py\<close>)\<close>

definition get_response :: "'f env \<Rightarrow> string \<Rightarrow> 'f state \<Rightarrow> (py_error + string option) \<times> 'f state" where
  \<comment> \<open>\<open>Some body\<close> is the response, \<open>None\<close> is \<open>False\<close>. After
      \<open>except Exception as error: pass\<close> the name \<open>error\<close> is unbound, and
      \<open>logger.error(error)\<close> raises\<close>
  "get_response e src_url st =
     (case http_get e src_url of
        Response body \<Rightarrow> (Inr (Some body), st)
      | Timeout \<Rightarrow> (Inr None, log_msg ERROR (''Timeout connection: '' @ src_url) st)
      | ConnectionError \<Rightarrow> (Inr None, log_msg ERROR ''No internet connection'' st)
      | HTTPError \<Rightarrow> (Inr None, log_msg ERROR (''Not found: '' @ src_url) st)
      | OtherException \<Rightarrow> (Inl UnboundLocalError, st))"

definition download :: "'f env \<Rightarrow> string \<Rightarrow> string \<Rightarrow> 'f state \<Rightarrow> (py_error + unit) \<times> 'f state" where
  "download e src_url dst_path st =
     then_do (get_response e src_url st) (\<lambda>response st1.
       case response of
         None \<Rightarrow> (Inr (), log_msg ERROR (''Failed to download file from '' @ src_url) st1)
       | Some body \<Rightarrow> (Inr (), st1\<lparr>files := files st1 @ [(dst_path, Bytes body)]\<rparr>))"


section \<open>Catalog resolution (\<open>get_products\<close>)\<close>





section \<open>The browser connection (\<open>wrappers/selenium_connection.py\<close>)\<close>

definition load_page :: "'f env \<Rightarrow> string \<Rightarrow> 'f state \<Rightarrow> (py_error + unit) \<times> 'f state" where
  \<comment> \<open>\<open>webdriver.Chrome(...)\<close> starts the session, then \<open>driver.get(url)\<close> may raise\<close>
  "load_page e url st =
     (case render e url of
        None \<Rightarrow> (Inl WebDriverException, st\<lparr>sessions := Suc (sessions st)\<rparr>)
      | Some pg \<Rightarrow> (Inr (), st\<lparr>driver := Some pg, sessions := Suc (sessions st)\<rparr>))"

definition close :: "'f state \<Rightarrow> (py_error + unit) \<times> 'f state" where
  \<comment> \<open>\<open>self.driver.quit()\<close>\<close>
  "close st =
     (case driver st of
        None \<Rightarrow> (Inl AttributeError, st)
      | Some pg \<Rightarrow> (Inr (), st\<lparr>sessions := sessions st - 1\<rparr>))"

section \<open>Field extractors\<close>

definition get_head :: "'f state \<Rightarrow> (py_error + unit) \<times> 'f state" where
  "get_head st =
     (case driver st of
        None \<Rightarrow> (Inl AttributeError, st)
      | Some pg \<Rightarrow>
          (Inr (), st\<lparr>product_info := (product_info st)
             \<lparr>product_id := page_title pg, description := product_description pg\<rparr>\<rparr>))"

definition get_specs :: "'f state \<Rightarrow> (py_error + unit) \<times> 'f state" where
  \<comment> \<open>\<open>go_to_tab\<close> raises ValueError on a missing tab, which \<open>get_specs\<close> catches\<close>
  "get_specs st =
     (case driver st of
        None \<Rightarrow> (Inl AttributeError, st)
      | Some pg \<Rightarrow>
          if \<not> specs_tab pg then (Inr (), st)
          else (case (span_label pg, span_value pg) of
              (Some spec_labels, Some spec_values) \<Rightarrow>
                (Inr (), st\<lparr>product_info := (product_info st)
                   \<lparr>specs := Some (build_specs spec_labels spec_values)\<rparr>\<rparr>)
            | _ \<Rightarrow> (Inr (), log_msg WARNING
                   (str_of (product_id (product_info st)) @ '': Product without specs'') st)))"

subsection \<open>Bill of materials\<close>

definition convert_html_table :: "'f env \<Rightarrow> string \<Rightarrow> py_error + 'f dataframe" where
  \<comment> \<open>\<open>utils.convert_html_table\<close>: the first table, its column names normalised by
      \<open>col.replace(" ", "_").lower()\<close>\<close>
  "convert_html_table e table =
     (case read_html e table of
        Inl err \<Rightarrow> Inl err
      | Inr list_df_table \<Rightarrow>
          (case list_df_table of
             [] \<Rightarrow> Inr []
           | df_table # _ \<Rightarrow> Inr (map (\<lambda>(col, cells). (label_key col, cells)) df_table)))"

definition col_length :: "'f column \<Rightarrow> nat" where
  "col_length c = (case c of TextCol xs \<Rightarrow> length xs | NumCol xs \<Rightarrow> length xs)"

definition df_empty :: "'f dataframe \<Rightarrow> bool" where
  \<comment> \<open>\<open>df.empty\<close>: no column or no row\<close>
  "df_empty df \<longleftrightarrow> (case df of [] \<Rightarrow> True | (col, cells) # _ \<Rightarrow> col_length cells = 0)"

definition rectangular :: "'f dataframe \<Rightarrow> bool" where
  \<comment> \<open>the columns of a frame have one length, the number of its rows\<close>
  "rectangular df \<longleftrightarrow>
     (case df of [] \<Rightarrow> True
      | (col, cells) # rest \<Rightarrow> list_all (\<lambda>(c, xs). col_length xs = col_length cells) rest)"

definition first_token :: "string \<Rightarrow> string" where
  \<comment> \<open>\<open>.str.split(" ", expand=True)[0]\<close> on one text cell: the text before the first
      space\<close>
  "first_token s = takeWhile (\<lambda>c. c \<noteq> CHR '' '') s"

definition first_whitespace_token :: "string \<Rightarrow> string" where
  \<comment> \<open>the first whitespace-delimited token, as the specification words it
      (\<open>s.split()[0]\<close>): leading whitespace dropped, then up to the next whitespace\<close>
  "first_whitespace_token s = takeWhile (\<lambda>c. \<not> is_space c) (dropWhile is_space s)"

fun astype_float :: "(string \<Rightarrow> 'f option) \<Rightarrow> string option list \<Rightarrow> py_error + 'f option list" where
  \<comment> \<open>\<open>.astype(float)\<close> on a column of text: a missing cell stays missing (NaN), a text that
      is no number raises ValueError\<close>
  "astype_float f [] = Inr []"
| "astype_float f (None # cs) =
     (case astype_float f cs of Inl err \<Rightarrow> Inl err | Inr vs \<Rightarrow> Inr (None # vs))"
| "astype_float f (Some tok # cs) =
     (case f tok of
        None \<Rightarrow> Inl ValueError
      | Some v \<Rightarrow> (case astype_float f cs of Inl err \<Rightarrow> Inl err | Inr vs \<Rightarrow> Inr (Some v # vs)))"

definition quantity_floats :: "'f env \<Rightarrow> 'f dataframe \<Rightarrow> py_error + 'f option list" where
  \<comment> \<open>lines 148 and 149 of \<open>get_bom\<close>. \<open>df_table["quantity"]\<close> raises KeyError without such
      a column; the \<open>.str\<close> accessor raises AttributeError on a numeric column, and on the
      frame that several columns of that name select\<close>
  "quantity_floats e df_table =
     (case filter (\<lambda>(col, cells). col = ''quantity'') df_table of
        [] \<Rightarrow> Inl KeyError
      | [(col, TextCol cells)] \<Rightarrow> astype_float (to_float e) (map (map_option first_token) cells)
      | _ \<Rightarrow> Inl AttributeError)"

definition set_quantity :: "'f option list \<Rightarrow> 'f dataframe \<Rightarrow> 'f dataframe" where
  \<comment> \<open>\<open>df_table["quantity"] = ...\<close>\<close>
  "set_quantity vs df_table =
     map (\<lambda>(col, cells). if col = ''quantity'' then (col, NumCol vs) else (col, cells)) df_table"

definition cell_at :: "'f column \<Rightarrow> nat \<Rightarrow> 'f cell" where
  "cell_at c i =
     (case c of
        TextCol xs \<Rightarrow> (if i < length xs then (case xs ! i of None \<Rightarrow> NaN | Some s \<Rightarrow> Str s) else NaN)
      | NumCol xs \<Rightarrow> (if i < length xs then (case xs ! i of None \<Rightarrow> NaN | Some v \<Rightarrow> Num v) else NaN))"

definition to_dict_records :: "'f dataframe \<Rightarrow> (string \<times> 'f cell) list list" where
  \<comment> \<open>\<open>df_table.to_dict(orient="records")\<close>: one dictionary per row\<close>
  "to_dict_records df =
     (case df of
        [] \<Rightarrow> []
      | (col, cells) # _ \<Rightarrow>
          map (\<lambda>i. fold (\<lambda>(col, cells) row. AList.update col (cell_at cells i) row) df [])
            [0..<col_length cells])"

definition get_bom :: "'f env \<Rightarrow> 'f state \<Rightarrow> (py_error + unit) \<times> 'f state" where
  "get_bom e st =
     (case driver st of
        None \<Rightarrow> (Inl AttributeError, st)
      | Some pg \<Rightarrow>
          if \<not> parts_tab pg then (Inr (), st)
          else (case parts_pane pg of
              None \<Rightarrow> (Inl AttributeError, st)
            | Some outer_html \<Rightarrow>
                (case convert_html_table e outer_html of
                   Inl err \<Rightarrow> (Inl err, st)
                 | Inr df_table \<Rightarrow>
                     if df_empty df_table
                     then (Inr (), log_msg WARNING
                             (str_of (product_id (product_info st)) @ '': Product without bom'') st)
                     else (case quantity_floats e df_table of
                         Inl err \<Rightarrow> (Inl err, st)
                       | Inr vs \<Rightarrow>
                           (Inr (), st\<lparr>product_info := (product_info st)
                              \<lparr>bom := Some (to_dict_records (set_quantity vs df_table))\<rparr>\<rparr>)))))"

subsection \<open>Assets\<close>

definition download_files ::
  "'f env \<Rightarrow> string option \<Rightarrow> string \<Rightarrow> 'f state \<Rightarrow> (py_error + string option) \<times> 'f state" where
  \<comment> \<open>the second argument is the attribute of the element the XPath finds, \<open>None\<close> when
      there is no such element\<close>
  "download_files e file out_path st =
     (case file of
        None \<Rightarrow> (Inr None, st)
      | Some src_url \<Rightarrow>
          then_do (download e src_url out_path st) (\<lambda>_ st1.
            (Inr (Some (py_replace ''output/'' [] out_path)), st1)))"

definition py_index3 :: "pyval \<Rightarrow> py_error + pyval" where
  \<comment> \<open>\<open>cad_list[3]\<close>\<close>
  "py_index3 v =
     (case v of
        PList xs \<Rightarrow> (if 3 < length xs then Inr (xs ! 3) else Inl IndexError)
      | PStr s \<Rightarrow> (if 3 < length s then Inr (PStr [s ! 3]) else Inl IndexError)
      | PDict kvs \<Rightarrow> Inl KeyError
      | _ \<Rightarrow> Inl TypeError)"

definition falsy :: "pyval \<Rightarrow> bool" where
  "falsy v =
     (case v of PStr s \<Rightarrow> s = [] | PInt n \<Rightarrow> n = 0 | PNone \<Rightarrow> True
      | PList xs \<Rightarrow> xs = [] | PDict kvs \<Rightarrow> kvs = [])"

definition py_iter :: "pyval \<Rightarrow> py_error + pyval list" where
  "py_iter v =
     (case v of
        PList xs \<Rightarrow> Inr xs
      | PStr s \<Rightarrow> Inr (map (\<lambda>c. PStr [c]) s)
      | PDict kvs \<Rightarrow> Inr (map (\<lambda>(k, v). PStr k) kvs)
      | _ \<Rightarrow> Inl TypeError)"

definition getitem :: "pyval \<Rightarrow> string \<Rightarrow> py_error + pyval" where
  \<comment> \<open>\<open>cad_info[key]\<close> with a string key\<close>
  "getitem v key =
     (case v of
        PDict kvs \<Rightarrow> (case map_of kvs key of None \<Rightarrow> Inl KeyError | Some x \<Rightarrow> Inr x)
      | _ \<Rightarrow> Inl TypeError)"

definition as_str :: "pyval \<Rightarrow> py_error + string" where
  \<comment> \<open>a value used where only a \<open>str\<close> is accepted\<close>
  "as_str v = (case v of PStr s \<Rightarrow> Inr s | _ \<Rightarrow> Inl TypeError)"

definition hashable :: "pyval \<Rightarrow> bool" where
  "hashable v = (case v of PList xs \<Rightarrow> False | PDict kvs \<Rightarrow> False | _ \<Rightarrow> True)"

definition lift :: "py_error + 'a \<Rightarrow> 's \<Rightarrow> (py_error + 'a) \<times> 's" where
  "lift r st = (r, st)"

fun cad_loop ::
  "'f env \<Rightarrow> string \<Rightarrow> pyval list \<Rightarrow> (pyval \<times> string) list \<Rightarrow> 'f state
     \<Rightarrow> (py_error + (pyval \<times> string) list) \<times> 'f state" where
  \<comment> \<open>\<open>for cad_info in cad_list: ...\<close>\<close>
  "cad_loop e prod_out_path [] assets_metadata st = (Inr assets_metadata, st)"
| "cad_loop e prod_out_path (cad_info # rest) assets_metadata st =
     then_do (lift (getitem cad_info ''url'') st) (\<lambda>url st.
     then_do (lift (as_str url) st) (\<lambda>raw st.
     then_do (lift (getitem cad_info ''value'') st) (\<lambda>val st.
     then_do (lift (as_str val) st) (\<lambda>val_str st.
     then_do (download e
         (default_url_download e @ val_str @ ''&url='' @ escape_url (char_order e) raw)
         (prod_out_path @ ''/'' @ val_str) st) (\<lambda>_ st.
     then_do (lift (getitem cad_info ''name'') st) (\<lambda>nm st.
       if \<not> hashable nm then (Inl TypeError, st)
       else cad_loop e prod_out_path rest
              (AList.update nm (py_replace ''output/'' [] (prod_out_path @ ''/'' @ val_str))
                 assets_metadata) st))))))"

definition download_cad ::
  "'f env \<Rightarrow> string \<Rightarrow> 'f state \<Rightarrow> (py_error + (pyval \<times> string) list option) \<times> 'f state" where
  "download_cad e prod_out_path st =
     (case driver st of
        None \<Rightarrow> (Inl AttributeError, st)
      | Some pg \<Rightarrow>
          (case cadfiles pg of
             None \<Rightarrow> (Inr None, log_msg WARNING
                        (str_of (product_id (product_info st)) @ '': Product without cad'') st)
           | Some ng_init \<Rightarrow>
               then_do (lift (literal_eval e
                   (py_replace ''init'' [] (filter (\<lambda>c. \<not> is_space c) ng_init))) st) (\<lambda>outer st.
               then_do (lift (py_index3 outer) st) (\<lambda>fourth st.
               then_do (lift (case fourth of PStr s \<Rightarrow> literal_eval e s | _ \<Rightarrow> Inl ValueError) st)
                 (\<lambda>cad_list st.
                   if falsy cad_list
                   then (Inr None, log_msg WARNING
                          (str_of (product_id (product_info st)) @ '': Product without cad'') st)
                   else then_do (lift (py_iter cad_list) st) (\<lambda>items st.
                        then_do (cad_loop e prod_out_path items [] st) (\<lambda>assets_metadata st.
                          (Inr (Some assets_metadata), st))))))))"

definition download_assets :: "'f env \<Rightarrow> 'f state \<Rightarrow> (py_error + unit) \<times> 'f state" where
  \<comment> \<open>\<open>self.output_path["assets"] / prod_id\<close> raises TypeError when \<open>prod_id\<close> is None\<close>
  "download_assets e st =
     (case driver st of
        None \<Rightarrow> (Inl AttributeError, st)
      | Some pg \<Rightarrow>
          if \<not> drawings_tab pg then (Inr (), st)
          else (case product_id (product_info st) of
              None \<Rightarrow> (Inl TypeError, st)
            | Some prod_id \<Rightarrow>
                then_do (download_files e (product_image pg)
                    (''output/assets/'' @ prod_id @ ''/img.jpg'')
                    (st\<lparr>dirs := dirs st @ [''output/assets/'' @ prod_id]\<rparr>)) (\<lambda>img st.
                then_do (download_files e (info_packet pg)
                    (''output/assets/'' @ prod_id @ ''/manual.pdf'') st) (\<lambda>pdf st.
                then_do (download_cad e (''output/assets/'' @ prod_id) st) (\<lambda>cads st.
                  (Inr (), st\<lparr>product_info := (product_info st)
                     \<lparr>assets := Some \<lparr>image = img, manual = pdf, cad = cads\<rparr>\<rparr>\<rparr>))))))"

section \<open>Persistence and the orchestrator\<close>

definition json_write :: "'f env \<Rightarrow> string \<Rightarrow> 'f json_schema \<Rightarrow> 'f state \<Rightarrow> bool \<times> 'f state" where
  \<comment> \<open>\<open>utils.json_write\<close>: every exception is caught, logged and turned into False\<close>
  "json_write e fname data st =
     (case json_dump e fname data of
        Written \<Rightarrow> (True, st\<lparr>files := files st @ [(fname, Json data)]\<rparr>)
      | RaisesTypeError \<Rightarrow>
          (False, log_msg ERROR ''TypeError: Data provided is not serializable to JSON.'' st)
      | RaisesIOError \<Rightarrow>
          (False, log_msg ERROR ''IOError: An error occurred while writing to the file.'' st)
      | RaisesOther \<Rightarrow> (False, log_msg ERROR ''Unexpected error'' st))"

definition persist :: "'f env \<Rightarrow> 'f state \<Rightarrow> (py_error + unit) \<times> 'f state" where
  \<comment> \<open>the lines after \<open># Saving\<close>; the result of \<open>json_write\<close> is dropped\<close>
  "persist e st =
     (let prod_id = product_id (product_info st);
          json_path = ''output/metadata/'' @ str_of prod_id @ ''.json''
      in (Inr (), log_msg SUCCESS (str_of prod_id @ '': Sucefully scrapping'')
                    (snd (json_write e json_path (product_info st) st))))"

definition run_pipe :: "'f env \<Rightarrow> 'f state \<Rightarrow> (py_error + unit) \<times> 'f state" where
  \<comment> \<open>the four extractor calls after \<open>load_page\<close>\<close>
  "run_pipe e st =
     then_do (get_head st) (\<lambda>_ st.
     then_do (get_specs st) (\<lambda>_ st.
     then_do (get_bom e st) (\<lambda>_ st.
     download_assets e st)))"

definition run_scrapping :: "'f env \<Rightarrow> string \<Rightarrow> 'f state \<Rightarrow> (py_error + unit) \<times> 'f state" where
  "run_scrapping e product_url st =
     then_do (get_response e product_url (log_msg INFO (''Scrapping: '' @ product_url) st))
       (\<lambda>response st.
          case response of
            None \<Rightarrow> (Inr (), st)
          | Some body \<Rightarrow>
              then_do (load_page e product_url st) (\<lambda>_ st.
              then_do (run_pipe e st) (\<lambda>_ st.
              then_do (close st) (\<lambda>_ st.
              persist e st))))"

definition instantiate :: "'f state \<Rightarrow> 'f state" where
  \<comment> \<open>\<open>instantiate(cfg).sites\<close>: a new scraper object, with an empty record and no driver\<close>
  "instantiate st = st\<lparr>product_info := JsonSchema, driver := None\<rparr>"

fun scrape_all :: "'f env \<Rightarrow> string list \<Rightarrow> 'f state \<Rightarrow> (py_error + unit) \<times> 'f state" where
  \<comment> \<open>the loop of \<open>main\<close>: an exception of one product ends the run\<close>
  "scrape_all e [] st = (Inr (), st)"
| "scrape_all e (prod_url # rest) st =
     then_do (run_scrapping e prod_url (instantiate st)) (\<lambda>_ st. scrape_all e rest st)"

section \<open>Frames of the stages\<close>

definition is_download :: "'f written \<Rightarrow> bool" where
  "is_download w = (case w of Bytes b \<Rightarrow> True | Json r \<Rightarrow> False)"

definition downloads_only :: "'f state \<Rightarrow> 'f state \<Rightarrow> bool" where
  \<comment> \<open>what a stage after \<open>get_head\<close> may change: it keeps the driver, the sessions and the
      product id, and the files it writes are downloads\<close>
  "downloads_only st st' \<longleftrightarrow>
     driver st' = driver st \<and> sessions st' = sessions st \<and>
     product_id (product_info st') = product_id (product_info st) \<and>
     (\<exists>bs. files st' = files st @ bs \<and> list_all (\<lambda>(p, w). is_download w) bs)"

definition metadata_files :: "'f state \<Rightarrow> (string \<times> 'f written) list" where
  "metadata_files st = filter (\<lambda>(p, w). \<not> is_download w) (files st)"

definition write_error :: "write_outcome \<Rightarrow> string" where
  \<comment> \<open>the line that \<open>json_write\<close> logs for a failed write\<close>
  "write_error w =
     (case w of
        Written \<Rightarrow> []
      | RaisesTypeError \<Rightarrow> ''TypeError: Data provided is not serializable to JSON.''
      | RaisesIOError \<Rightarrow> ''IOError: An error occurred while writing to the file.''
      | RaisesOther \<Rightarrow> ''Unexpected error'')"

section \<open>An example world\<close>

text \<open>
  A small world on which the theorems below are instantiated. Its catalog lists
  \<open>M1\<close> and \<open>M2\<close>. The page of \<open>M1\<close> has the specs and parts tabs, an image and a
  manual, but no drawings tab; one quantity cell of its parts table is missing. The
  page of \<open>M2\<close> has a quantity cell without a number. The page of \<open>M3\<close> has no title
  and no tab. The probe of \<open>M4\<close> runs into an exception that \<open>get_response\<close> does not
  name. The record of \<open>M5\<close> cannot be serialised. The page of \<open>M6\<close> has the drawings
  tab but no title. The one quantity cell of \<open>M7\<close> has a no-break space between the
  number and the unit. The quantity column of \<open>M8\<close> holds numbers only, so it is numeric.
\<close>

definition example_to_float :: "string \<Rightarrow> int option" where
  \<comment> \<open>the conversion on strings of digits, where it is plain\<close>
  "example_to_float s =
     (if s \<noteq> [] \<and> list_all is_digit s
      then Some (foldl (\<lambda>n c. 10 * n + (int (ord c) - 48)) 0 s) else None)"

definition empty_page :: page where
  "empty_page = \<lparr>page_title = None, product_description = None, specs_tab = False,
     span_label = Some [], span_value = Some [], parts_tab = False, parts_pane = None,
     drawings_tab = False, product_image = None, info_packet = None, cadfiles = None\<rparr>"

definition page_M1 :: page where
  "page_M1 = empty_page\<lparr>page_title := Some ''M1'', product_description := Some ''Motor'',
     specs_tab := True,
     span_label := Some [''Rated Power'', [], ''Frame'', ''Rated power''],
     span_value := Some [''4.5 in (114 mm)'', ''N/A'', [], ''7 kW''],
     parts_tab := True, parts_pane := Some ''table-M1'',
     product_image := Some ''https://www.baldor.com/M1.jpg'',
     info_packet := Some ''https://www.baldor.com/M1.pdf''\<rparr>"

definition page_M2 :: page where
  "page_M2 = empty_page\<lparr>page_title := Some ''M2'', parts_tab := True,
     parts_pane := Some ''table-M2''\<rparr>"

definition page_M5 :: page where
  "page_M5 = empty_page\<lparr>page_title := Some ''M5''\<rparr>"

definition page_M6 :: page where
  "page_M6 = empty_page\<lparr>drawings_tab := True,
     product_image := Some ''https://www.baldor.com/M6.jpg''\<rparr>"

definition page_M7 :: page where
  "page_M7 = empty_page\<lparr>page_title := Some ''M7'', parts_tab := True,
     parts_pane := Some ''table-M7''\<rparr>"

definition page_M8 :: page where
  "page_M8 = empty_page\<lparr>page_title := Some ''M8'', parts_tab := True,
     parts_pane := Some ''table-M8''\<rparr>"

definition example_env :: "int env" where
  "example_env = \<lparr>
     http_get = (\<lambda>url.
       if url = CATALOG_URL then Response ''catalog''
       else if url = PRODUCT_URL @ ''M4'' then OtherException
       else if url \<in> set [PRODUCT_URL @ ''M1'', PRODUCT_URL @ ''M2'', PRODUCT_URL @ ''M3'',
                          PRODUCT_URL @ ''M5'', PRODUCT_URL @ ''M6'', PRODUCT_URL @ ''M7'',
                          PRODUCT_URL @ ''M8'']
         then Response ''page''
       else HTTPError),
     xml_texts = (\<lambda>body tg.
       if body = ''catalog'' \<and> tg = PRODUCT_CODE_TAG then [''M1'', ''M2'', ''M1''] else []),
     render = (\<lambda>url.
       if url = PRODUCT_URL @ ''M1'' then Some page_M1
       else if url = PRODUCT_URL @ ''M2'' then Some page_M2
       else if url = PRODUCT_URL @ ''M3'' then Some empty_page
       else if url = PRODUCT_URL @ ''M5'' then Some page_M5
       else if url = PRODUCT_URL @ ''M6'' then Some page_M6
       else if url = PRODUCT_URL @ ''M7'' then Some page_M7
       else if url = PRODUCT_URL @ ''M8'' then Some page_M8
       else None),
     read_html = (\<lambda>table.
       if table = ''table-M1''
         then Inr [[(''Part Number'', TextCol [Some ''A1'', Some ''B2'']),
                    (''Quantity'', TextCol [Some ''12 EA'', None])]]
       else if table = ''table-M2''
         then Inr [[(''Quantity'', TextCol [Some ''EA''])]]
       else if table = ''table-M7''
         then Inr [[(''Quantity'', TextCol [Some (''12'' @ CHR 0xA0 # ''EA'')])]]
       else if table = ''table-M8''
         then Inr [[(''Quantity'', NumCol [Some 4, Some 2])]]
       else Inl ValueError),
     to_float = example_to_float,
     literal_eval = (\<lambda>s. Inl SyntaxError),
     json_dump = (\<lambda>fname data.
       if fname = ''output/metadata/M5.json'' then RaisesTypeError else Written),
     set_order = id,
     char_order = id,
     sample = (\<lambda>population k. take k population),
     default_url_download = ''https://www.baldor.com/api/products/download/?value=''\<rparr>"

definition example_state :: "int state" where
  "example_state = \<lparr>product_info = JsonSchema, driver = None, sessions = 0, logged = [],
     dirs = [], files = []\<rparr>"

section \<open>Value normalisation\<close>

lemma is_digit_not_dot: "is_digit c \<Longrightarrow> \<not> is_dot c"
  by (auto simp: is_digit_def is_dot_def ord_def)

lemma filter_takeWhile_dropWhile:
  "filter P (takeWhile Q xs) @ filter P (dropWhile Q xs) = filter P xs"
  by (metis filter_append takeWhile_dropWhile_id)

lemma filter_digit_match:
  "filter is_digit (takeWhile is_digit xs @ takeWhile is_dot (dropWhile is_digit xs) @
        takeWhile is_digit (dropWhile is_dot (dropWhile is_digit xs))) @
     filter is_digit (dropWhile is_digit (dropWhile is_dot (dropWhile is_digit xs)))
   = filter is_digit xs"
proof -
  let ?r1 = "dropWhile is_digit xs"
  let ?r2 = "dropWhile is_dot ?r1"
  have "filter is_digit xs = filter is_digit (takeWhile is_digit xs) @ filter is_digit ?r1"
    by (simp only: filter_takeWhile_dropWhile)
  also have "filter is_digit ?r1 = filter is_digit (takeWhile is_dot ?r1) @ filter is_digit ?r2"
    by (simp only: filter_takeWhile_dropWhile)
  also have "filter is_digit ?r2 =
      filter is_digit (takeWhile is_digit ?r2) @ filter is_digit (dropWhile is_digit ?r2)"
    by (simp only: filter_takeWhile_dropWhile)
  finally show ?thesis by (simp only: filter_append append_assoc)
qed

lemma findall_numbers_digit:
  assumes "is_digit c"
  shows "findall_numbers (c # cs) =
        (takeWhile is_digit (c # cs) @ takeWhile is_dot (dropWhile is_digit (c # cs)) @
          takeWhile is_digit (dropWhile is_dot (dropWhile is_digit (c # cs)))) #
        findall_numbers (dropWhile is_digit (dropWhile is_dot (dropWhile is_digit (c # cs))))"
  using assms by (simp only: findall_numbers.simps Let_def if_True)

lemma findall_numbers_digits:
  "filter is_digit (concat (findall_numbers v)) = filter is_digit v"
proof (induction v rule: findall_numbers.induct)
  case 1
  show ?case by simp
next
  case (2 c cs)
  show ?case
  proof (cases "is_digit c")
    case True
    have IH: "filter is_digit (concat (findall_numbers
        (dropWhile is_digit (dropWhile is_dot (dropWhile is_digit (c # cs)))))) =
        filter is_digit (dropWhile is_digit (dropWhile is_dot (dropWhile is_digit (c # cs))))"
      by (rule "2.IH"(1) [OF True refl refl refl refl refl refl])
    show ?thesis
      using IH filter_digit_match [of "c # cs"]
      by (simp only: findall_numbers_digit [OF True] concat.simps filter_append)
  next
    case False
    with "2.IH"(2) show ?thesis by simp
  qed
qed

lemma number_match_app:
  assumes "a \<noteq> []" "\<forall>x\<in>set a. is_digit x" "\<forall>x\<in>set b. is_dot x" "\<forall>x\<in>set c. is_digit x"
  shows "number_match (a @ b @ c)"
proof -
  obtain x a' where a: "a = x # a'" using assms(1) by (cases a) auto
  then have "is_digit x" using assms(2) by simp
  then have t: "takeWhile is_digit (a @ b @ c) \<noteq> []" using a by simp
  have d1: "dropWhile is_digit (a @ b @ c) = dropWhile is_digit (b @ c)"
    using assms(2) by (simp add: dropWhile_append2)
  have d2: "list_all is_digit (dropWhile is_dot (dropWhile is_digit (b @ c)))"
  proof (cases b)
    case Nil
    have e: "dropWhile is_digit c = []" using assms(4) by (simp add: dropWhile_eq_Nil_conv)
    show ?thesis unfolding Nil append_Nil e by simp
  next
    case (Cons d ds)
    then have "is_dot d" using assms(3) by simp
    then have "\<not> is_digit d" using is_digit_not_dot by blast
    then have "dropWhile is_digit (b @ c) = b @ c" using Cons by simp
    moreover have "dropWhile is_dot (b @ c) = dropWhile is_dot c"
      using assms(3) by (simp add: dropWhile_append2)
    moreover have "list_all is_digit (dropWhile is_dot c)"
      using assms(4) by (auto simp: list_all_iff dest: set_dropWhileD)
    ultimately show ?thesis by simp
  qed
  show ?thesis
    unfolding number_match_def Let_def using t d1 d2 by simp
qed

lemma findall_numbers_match:
  "m \<in> set (findall_numbers v) \<Longrightarrow> number_match m"
proof (induction v rule: findall_numbers.induct)
  case 1
  then show ?case by simp
next
  case (2 c cs)
  show ?case
  proof (cases "is_digit c")
    case True
    let ?r1 = "dropWhile is_digit (c # cs)"
    let ?r2 = "dropWhile is_dot ?r1"
    let ?m = "takeWhile is_digit (c # cs) @ takeWhile is_dot ?r1 @ takeWhile is_digit ?r2"
    have "takeWhile is_digit (c # cs) \<noteq> []" using True by simp
    then have nm: "number_match ?m"
      by (rule number_match_app) (auto dest: set_takeWhileD)
    from "2.prems" findall_numbers_digit [OF True, of cs]
    have "m = ?m \<or> m \<in> set (findall_numbers (dropWhile is_digit ?r2))"
      by (simp only: set_simps insert_iff)
    then show ?thesis
    proof
      assume "m = ?m"
      then show ?thesis using nm by simp
    next
      assume "m \<in> set (findall_numbers (dropWhile is_digit ?r2))"
      then show ?thesis
        by (rule "2.IH"(1) [OF True refl refl refl refl refl refl])
    qed
  next
    case False
    with "2.prems" "2.IH"(2) show ?thesis by simp
  qed
qed

lemma findall_numbers_no_digit:
  "\<forall>c\<in>set v. \<not> is_digit c \<Longrightarrow> findall_numbers v = []"
  by (induction v) auto

lemma integer_or_decimal_is_match:
  assumes "is_integer_or_decimal s"
  shows "number_match s"
proof (cases "dropWhile is_digit s")
  case Nil
  have "takeWhile is_digit s \<noteq> []"
    using assms by (simp add: is_integer_or_decimal_def Let_def)
  then show ?thesis unfolding number_match_def Let_def Nil by simp
next
  case (Cons d ds)
  with assms have d: "is_dot d" and ds: "list_all is_digit ds"
    by (simp_all add: is_integer_or_decimal_def)
  have "list_all is_digit (dropWhile is_dot ds)"
    using ds by (auto simp: list_all_iff dest: set_dropWhileD)
  then show ?thesis
    using assms Cons d by (simp add: is_integer_or_decimal_def number_match_def)
qed

lemma takeWhile_dropWhile_block:
  assumes "\<forall>x\<in>set xs. P x" and "ys \<noteq> [] \<longrightarrow> \<not> P (hd ys)"
  shows "takeWhile P (xs @ ys) = xs" and "dropWhile P (xs @ ys) = ys"
proof -
  have t: "takeWhile P ys = []" and d: "dropWhile P ys = ys"
    using assms(2) by (cases ys; simp)+
  show "takeWhile P (xs @ ys) = xs"
    using assms(1) t by (simp add: takeWhile_append2)
  show "dropWhile P (xs @ ys) = ys"
    using assms(1) d by (simp add: dropWhile_append2)
qed

lemma findall_numbers_gap:
  "\<forall>c\<in>set gap. \<not> is_digit c \<Longrightarrow> findall_numbers (gap @ xs) = findall_numbers xs"
  by (induction gap) simp_all

lemma findall_numbers_leftmost:
  assumes "leftmost_match v gap ds dots fr rest"
  shows "findall_numbers v = (ds @ dots @ fr) # findall_numbers rest"
proof -
  let ?w = "ds @ dots @ fr @ rest"
  from assms have v: "v = gap @ ?w" and gap: "\<forall>c\<in>set gap. \<not> is_digit c"
    and ds: "ds \<noteq> []" "\<forall>c\<in>set ds. is_digit c" and dots: "\<forall>c\<in>set dots. is_dot c"
    and fr: "\<forall>c\<in>set fr. is_digit c" and nofr: "dots = [] \<longrightarrow> fr = []"
    and rest: "rest \<noteq> [] \<longrightarrow> \<not> is_digit (hd rest) \<and> (fr = [] \<longrightarrow> \<not> is_dot (hd rest))"
    by (simp_all add: leftmost_match_def)
  obtain d ds' where dd: "ds = d # ds'" using ds(1) by (cases ds) auto
  then have digit: "is_digit d" using ds(2) by simp
  have after_ds: "dots @ fr @ rest \<noteq> [] \<longrightarrow> \<not> is_digit (hd (dots @ fr @ rest))"
  proof (cases dots)
    case Nil
    with nofr rest show ?thesis by simp
  next
    case (Cons x xs)
    then have "is_dot x" using dots by simp
    then have "\<not> is_digit x" using is_digit_not_dot by blast
    with Cons show ?thesis by simp
  qed
  have after_dots: "fr @ rest \<noteq> [] \<longrightarrow> \<not> is_dot (hd (fr @ rest))"
  proof (cases fr)
    case Nil
    with rest show ?thesis by simp
  next
    case (Cons y ys)
    then have "is_digit y" using fr by simp
    then have "\<not> is_dot y" by (rule is_digit_not_dot)
    with Cons show ?thesis by simp
  qed
  have after_fr: "rest \<noteq> [] \<longrightarrow> \<not> is_digit (hd rest)" using rest by simp
  have t1: "takeWhile is_digit ?w = ds" and d1: "dropWhile is_digit ?w = dots @ fr @ rest"
    using takeWhile_dropWhile_block [OF ds(2) after_ds] by simp_all
  have t2: "takeWhile is_dot (dots @ fr @ rest) = dots"
    and d2: "dropWhile is_dot (dots @ fr @ rest) = fr @ rest"
    using takeWhile_dropWhile_block [OF dots after_dots] by simp_all
  have t3: "takeWhile is_digit (fr @ rest) = fr" and d3: "dropWhile is_digit (fr @ rest) = rest"
    using takeWhile_dropWhile_block [OF fr after_fr] by simp_all
  have w: "?w = d # (ds' @ dots @ fr @ rest)" by (simp add: dd)
  have "findall_numbers ?w = (ds @ dots @ fr) # findall_numbers rest"
    using findall_numbers_digit [OF digit, of "ds' @ dots @ fr @ rest"]
    unfolding w [symmetric] t1 d1 t2 d2 t3 d3 .
  then show ?thesis
    using findall_numbers_gap [OF gap, of ?w] v by simp
qed

lemma takeWhile_after_dropWhile: "takeWhile P (dropWhile P xs) = []"
proof (cases "dropWhile P xs")
  case Nil
  show ?thesis unfolding Nil by simp
next
  case (Cons a list)
  then have "dropWhile P xs \<noteq> []" by simp
  then have "\<not> P (hd (dropWhile P xs))" by (rule hd_dropWhile)
  then have "\<not> P a" unfolding Cons by simp
  then show ?thesis unfolding Cons by simp
qed

lemma leftmost_match_exists:
  assumes "\<exists>c\<in>set v. is_digit c"
  shows "\<exists>gap ds dots fr rest. leftmost_match v gap ds dots fr rest"
proof -
  let ?gap = "takeWhile (\<lambda>c. \<not> is_digit c) v"
  let ?w = "dropWhile (\<lambda>c. \<not> is_digit c) v"
  let ?ds = "takeWhile is_digit ?w"
  let ?r1 = "dropWhile is_digit ?w"
  let ?dots = "takeWhile is_dot ?r1"
  let ?r2 = "dropWhile is_dot ?r1"
  let ?fr = "takeWhile is_digit ?r2"
  let ?rest = "dropWhile is_digit ?r2"
  have w: "?w \<noteq> []" using assms by (simp add: dropWhile_eq_Nil_conv)
  then have "is_digit (hd ?w)" using hd_dropWhile [of "\<lambda>c. \<not> is_digit c" v] by simp
  then have ds: "?ds \<noteq> []" using w by (cases ?w) auto
  have split: "v = ?gap @ ?ds @ ?dots @ ?fr @ ?rest" by simp
  have nofr: "?dots = [] \<longrightarrow> ?fr = []"
  proof
    assume e: "?dots = []"
    have "?dots @ ?r2 = ?r1" by (rule takeWhile_dropWhile_id)
    with e have "?r2 = ?r1" by simp
    then show "?fr = []" by (simp add: takeWhile_after_dropWhile)
  qed
  have rest: "?rest \<noteq> [] \<longrightarrow> \<not> is_digit (hd ?rest) \<and> (?fr = [] \<longrightarrow> \<not> is_dot (hd ?rest))"
  proof (intro impI conjI)
    assume "?rest \<noteq> []"
    then show "\<not> is_digit (hd ?rest)" by (rule hd_dropWhile)
  next
    assume ne: "?rest \<noteq> []" and e: "?fr = []"
    have "?fr @ ?rest = ?r2" by (rule takeWhile_dropWhile_id)
    with e have eq: "?rest = ?r2" by simp
    with ne have "?r2 \<noteq> []" by simp
    then have "\<not> is_dot (hd ?r2)" by (rule hd_dropWhile)
    with eq show "\<not> is_dot (hd ?rest)" by simp
  qed
  have "leftmost_match v ?gap ?ds ?dots ?fr ?rest"
    unfolding leftmost_match_def
    using split ds nofr rest by (auto dest: set_takeWhileD)
  then show ?thesis by blast
qed

text \<open>
  C5, as the code has it. The value of a specification entry is the \<open>/\<close>-joined list of
  the matches of \<open>\d+\.*\d*\<close>, taken greedily from left to right. A value with a digit
  splits into a part without digits, then the longest run of digits from the first
  digit on, the longest run of dots after it, the longest run of digits after these, and
  a rest; its first match is these three runs together, and the further matches are
  those of the rest. So every match is one or more digits, then any number of dots, then
  any number of digits, and the matches hold every digit of the value, in order. A value
  without a digit gives the empty string; \<open>4.5 in (114 mm)\<close> gives \<open>4.5/114\<close> and
  \<open>N/A\<close> gives the empty string.
\<close>

theorem spec_value_matches:
  "spec_value v = py_join ''/'' (findall_numbers v) \<and>
   ((\<exists>c\<in>set v. is_digit c) \<longrightarrow> (\<exists>gap ds dots fr rest. leftmost_match v gap ds dots fr rest)) \<and>
   (\<forall>gap ds dots fr rest. leftmost_match v gap ds dots fr rest \<longrightarrow>
      findall_numbers v = (ds @ dots @ fr) # findall_numbers rest) \<and>
   ((\<forall>c\<in>set v. \<not> is_digit c) \<longrightarrow> findall_numbers v = [] \<and> spec_value v = []) \<and>
   (\<forall>m\<in>set (findall_numbers v). number_match m) \<and>
   filter is_digit (concat (findall_numbers v)) = filter is_digit v \<and>
   spec_value ''4.5 in (114 mm)'' = ''4.5/114'' \<and> spec_value ''N/A'' = []"
proof -
  have ex1: "spec_value ''4.5 in (114 mm)'' = ''4.5/114''" by code_simp
  have ex2: "spec_value ''N/A'' = []" by code_simp
  have a: "\<forall>m\<in>set (findall_numbers v). number_match m"
    using findall_numbers_match by blast
  have b: "(\<forall>c\<in>set v. \<not> is_digit c) \<longrightarrow> findall_numbers v = [] \<and> spec_value v = []"
    using findall_numbers_no_digit [of v] by (simp add: spec_value_def)
  have c: "(\<exists>c\<in>set v. is_digit c) \<longrightarrow> (\<exists>gap ds dots fr rest. leftmost_match v gap ds dots fr rest)"
    using leftmost_match_exists [of v] by blast
  have d: "\<forall>gap ds dots fr rest. leftmost_match v gap ds dots fr rest \<longrightarrow>
      findall_numbers v = (ds @ dots @ fr) # findall_numbers rest"
    using findall_numbers_leftmost by blast
  show ?thesis
    using a b c d findall_numbers_digits [of v] ex1 ex2 spec_value_def [of v] by blast
qed

theorem spec_value_matches_witness:
  "findall_numbers ''12.5 kW'' = [''12.5''] \<and>
   number_match ''4.5'' \<and> number_match ''114'' \<and> spec_value ''Class F'' = []"
proof -
  have l: "leftmost_match ''12.5 kW'' [] ''12'' ''.'' ''5'' '' kW''" by code_simp
  have k: "\<forall>c\<in>set '' kW''. \<not> is_digit c" by code_simp
  have "findall_numbers ''12.5 kW'' = (''12'' @ ''.'' @ ''5'') # findall_numbers '' kW''"
    using spec_value_matches [of "''12.5 kW''"] l by blast
  moreover have "findall_numbers '' kW'' = []"
    using spec_value_matches [of "'' kW''"] k by blast
  ultimately have first: "findall_numbers ''12.5 kW'' = [''12.5'']" by simp
  have m: "findall_numbers ''4.5 in (114 mm)'' = [''4.5'', ''114'']" by code_simp
  have n: "\<forall>c\<in>set ''Class F''. \<not> is_digit c" by code_simp
  have "\<forall>m\<in>set (findall_numbers ''4.5 in (114 mm)''). number_match m"
    using spec_value_matches [of "''4.5 in (114 mm)''"] by blast
  then have "\<forall>m\<in>set [''4.5'', ''114'']. number_match m" by (simp only: m)
  then have "number_match ''4.5'' \<and> number_match ''114''" by simp
  moreover have "spec_value ''Class F'' = []"
    using spec_value_matches [of "''Class F''"] n by blast
  ultimately show ?thesis using first by blast
qed

text \<open>
  C5 as stated fails: the pattern takes any number of dots, so the value \<open>1..2\<close> is one
  match, which is neither an integer nor a decimal.
\<close>

theorem spec_value_counterexample:
  "findall_numbers ''1..2'' = [''1..2''] \<and> \<not> is_integer_or_decimal ''1..2'' \<and>
   spec_value ''1..2'' = ''1..2''"
  by code_simp

section \<open>Sequencing\<close>

lemma then_do_Inl [simp]: "then_do (Inl err, s) f = (Inl err, s)"
  by (simp add: then_do_def)

lemma then_do_Inr [simp]: "then_do (Inr a, s) f = f a s"
  by (simp add: then_do_def)

lemma lift_simp [simp]: "lift r st = (r, st)"
  by (simp add: lift_def)

lemma then_do_cases:
  assumes "then_do r f = (res, s')"
  obtains (raised) err where "r = (Inl err, s')" "res = Inl err"
    | (went_on) a s where "r = (Inr a, s)" "f a s = (res, s')"
proof (cases r)
  case (Pair x s)
  show ?thesis
  proof (cases x)
    case (Inl err)
    with Pair assms raised show ?thesis by simp
  next
    case (Inr a)
    with Pair assms went_on show ?thesis by simp
  qed
qed

section \<open>Catalog resolution\<close>

lemma py_set_elements:
  assumes "iteration_order order"
  shows "set (py_set order xs) = set xs" and "distinct (py_set order xs)"
proof -
  have m: "mset (order (remdups xs)) = mset (remdups xs)"
    using assms by (simp add: iteration_order_def)
  then have "set (order (remdups xs)) = set (remdups xs)" by (rule mset_eq_setD)
  then show "set (py_set order xs) = set xs" by (simp add: py_set_def)
  have "distinct (order (remdups xs)) = distinct (remdups xs)"
    using m by (rule mset_eq_imp_distinct_iff)
  then show "distinct (py_set order xs)" by (simp add: py_set_def)
qed




section \<open>CAD URL escaping\<close>

lemma hex_digit_tables:
  "\<forall>k\<in>set [0..<16]. upper_char (hex_digit k) = upper_hex_digit k \<and> is_word (upper_hex_digit k) \<and>
      hex_digit k \<noteq> CHR ''x''"
  by code_simp

lemma hex_digit_upper:
  assumes "k < 16"
  shows "upper_char (hex_digit k) = upper_hex_digit k" and "is_word (upper_hex_digit k)"
    and "hex_digit k \<noteq> CHR ''x''"
proof -
  have "k \<in> set [0..<16]" using assms by simp
  with hex_digit_tables
  have "upper_char (hex_digit k) = upper_hex_digit k \<and> is_word (upper_hex_digit k) \<and>
      hex_digit k \<noteq> CHR ''x''"
    by blast
  then show "upper_char (hex_digit k) = upper_hex_digit k" and "is_word (upper_hex_digit k)"
    and "hex_digit k \<noteq> CHR ''x''"
    by simp_all
qed

lemma ord_less_256: "ord c < 256"
  by (simp add: ord_def)

lemma hex_ascii_two_digits:
  assumes "16 \<le> ord c"
  shows "hex_ascii c = [CHR ''%'', upper_hex_digit (ord c div 16), upper_hex_digit (ord c mod 16)]"
proof -
  let ?a = "hex_digit (ord c div 16)" and ?b = "hex_digit (ord c mod 16)"
  have d: "ord c div 16 < 16" using ord_less_256 [of c] by simp
  have m: "ord c mod 16 < 16" by simp
  have "hex_digits (ord c) = hex_digits (ord c div 16) @ [?b]"
    using assms by (subst hex_digits.simps) simp
  also have "hex_digits (ord c div 16) = [?a]"
    using d by (subst hex_digits.simps) simp
  finally have h: "py_hex (ord c) = ''0x'' @ [?a, ?b]" by (simp add: py_hex_def)
  have bx: "?b \<noteq> CHR ''x''" using hex_digit_upper(3) [OF m] .
  have "py_replace ''0x'' ''%'' (''0x'' @ [?a, ?b]) = [CHR ''%'', ?a, ?b]"
    using bx by simp
  then have "hex_ascii c = py_upper [CHR ''%'', ?a, ?b]"
    by (simp only: hex_ascii_def h)
  also have "\<dots> = [upper_char CHR ''%'', upper_char ?a, upper_char ?b]"
    by (simp add: py_upper_def)
  also have "upper_char CHR ''%'' = CHR ''%''" by code_simp
  finally show ?thesis
    using hex_digit_upper(1) [OF d] hex_digit_upper(1) [OF m] by simp
qed

lemma re_sub_char_concat:
  "re_sub_char c h (concat xss) = concat (map (re_sub_char c h) xss)"
  by (induction xss) (simp_all add: re_sub_char_def)

lemma re_sub_char_absent:
  "c \<notin> set xs \<Longrightarrow> re_sub_char c h xs = xs"
  by (induction xs) (auto simp: re_sub_char_def)

lemma escape_loop_encodes:
  assumes "distinct cs" and "\<forall>c\<in>set cs. \<not> is_word c \<and> c \<noteq> CHR ''%'' \<and> c \<notin> D"
    and "\<forall>x\<in>D. \<forall>c\<in>set cs. c \<notin> set (hex_ascii x)"
    and "\<forall>x\<in>set cs. \<forall>c\<in>set cs. c \<notin> set (hex_ascii x)"
  shows "escape_loop cs (concat (map (\<lambda>x. if x \<in> D then hex_ascii x else [x]) s)) =
         concat (map (\<lambda>x. if x \<in> D \<union> set cs then hex_ascii x else [x]) s)"
  using assms
proof (induction cs arbitrary: D)
  case Nil
  show ?case by simp
next
  case (Cons c cs)
  let ?f = "\<lambda>x. if x \<in> D then hex_ascii x else [x]"
  let ?g = "\<lambda>x. if x \<in> insert c D then hex_ascii x else [x]"
  have step: "re_sub_char c (hex_ascii c) (concat (map ?f s)) = concat (map ?g s)"
  proof -
    have "\<And>x. re_sub_char c (hex_ascii c) (?f x) = ?g x"
    proof -
      fix x
      show "re_sub_char c (hex_ascii c) (?f x) = ?g x"
      proof (cases "x \<in> D")
        case True
        then have "c \<notin> set (hex_ascii x)" using Cons.prems(3) by simp
        then show ?thesis using True by (simp add: re_sub_char_absent)
      next
        case False
        then show ?thesis by (simp add: re_sub_char_def)
      qed
    qed
    then show ?thesis by (simp add: re_sub_char_concat comp_def)
  qed
  have "escape_loop cs (concat (map ?g s)) =
      concat (map (\<lambda>x. if x \<in> insert c D \<union> set cs then hex_ascii x else [x]) s)"
  proof (rule Cons.IH)
    show "distinct cs" using Cons.prems(1) by simp
    show "\<forall>a\<in>set cs. \<not> is_word a \<and> a \<noteq> CHR ''%'' \<and> a \<notin> insert c D"
      using Cons.prems(1,2) by auto
    show "\<forall>x\<in>insert c D. \<forall>a\<in>set cs. a \<notin> set (hex_ascii x)"
      using Cons.prems(3,4) by auto
    show "\<forall>x\<in>set cs. \<forall>a\<in>set cs. a \<notin> set (hex_ascii x)"
      using Cons.prems(4) by auto
  qed
  then show ?case using step by simp
qed

text \<open>
  Where the escaping does what C3 says: on a URL without a percent sign whose non-word
  characters have code points from 16 on, whatever the order of iteration of the set.
\<close>

lemma escape_url_without_percent:
  assumes "iteration_order order" and "CHR ''%'' \<notin> set url_string"
    and "\<forall>c\<in>set url_string. \<not> is_word c \<longrightarrow> 16 \<le> ord c"
  shows "escape_url order url_string = percent_encode url_string"
proof -
  let ?cs = "non_words_char order url_string"
  have set_cs: "set ?cs = {c \<in> set url_string. \<not> is_word c}"
    using py_set_elements(1) [OF assms(1)] by (auto simp: non_words_char_def)
  have dist: "distinct ?cs"
    using py_set_elements(2) [OF assms(1)] by (simp add: non_words_char_def)
  have hex: "\<And>x. x \<in> set ?cs \<Longrightarrow>
      hex_ascii x = [CHR ''%'', upper_hex_digit (ord x div 16), upper_hex_digit (ord x mod 16)]"
    using set_cs assms(3) by (auto intro: hex_ascii_two_digits)
  have clean: "\<forall>x\<in>set ?cs. \<forall>c\<in>set ?cs. c \<notin> set (hex_ascii x)"
  proof (intro ballI)
    fix x c assume x: "x \<in> set ?cs" and c: "c \<in> set ?cs"
    have d: "ord x div 16 < 16" using ord_less_256 [of x] by simp
    have m: "ord x mod 16 < 16" by simp
    from c set_cs assms(2) have "\<not> is_word c" and "c \<noteq> CHR ''%''" by auto
    then show "c \<notin> set (hex_ascii x)"
      using hex [OF x] hex_digit_upper(2) [OF d] hex_digit_upper(2) [OF m] by auto
  qed
  have "escape_loop ?cs (concat (map (\<lambda>x. if x \<in> {} then hex_ascii x else [x]) url_string)) =
      concat (map (\<lambda>x. if x \<in> {} \<union> set ?cs then hex_ascii x else [x]) url_string)"
  proof (rule escape_loop_encodes)
    show "distinct ?cs" by (rule dist)
    show "\<forall>c\<in>set ?cs. \<not> is_word c \<and> c \<noteq> CHR ''%'' \<and> c \<notin> {}"
      using set_cs assms(2) by auto
    show "\<forall>x\<in>{}. \<forall>c\<in>set ?cs. c \<notin> set (hex_ascii x)" by simp
    show "\<forall>x\<in>set ?cs. \<forall>c\<in>set ?cs. c \<notin> set (hex_ascii x)" by (rule clean)
  qed
  then have "escape_url order url_string =
      concat (map (\<lambda>x. if x \<in> set ?cs then hex_ascii x else [x]) url_string)"
    by (simp add: escape_url_def)
  also have "\<dots> = percent_encode url_string"
    unfolding percent_encode_def
  proof (rule arg_cong [where f = concat], rule map_cong [OF refl])
    fix x assume "x \<in> set url_string"
    then show "(if x \<in> set ?cs then hex_ascii x else [x]) =
        (if is_word x then [x]
         else [CHR ''%'', upper_hex_digit (ord x div 16), upper_hex_digit (ord x mod 16)])"
      using set_cs hex [of x] by auto
  qed
  finally show ?thesis .
qed

text \<open>
  C3, at a URL that already holds a percent sign. The set of non-word characters of
  \<open>a/b%20c\<close> is iterated with the slash first: the percent sign that the escape of the
  slash brings in is escaped again, so the result is not the character-wise escape.
  A code point below 16 gets one hexadecimal digit, not two.
\<close>

theorem escape_url_escapes_twice:
  "escape_url id ''a/b%20c'' = ''a%252Fb%2520c'' \<and>
   percent_encode ''a/b%20c'' = ''a%2Fb%2520c'' \<and>
   escape_url rev ''a/b%20c'' = ''a%2Fb%2520c'' \<and>
   escape_url id [CHR 0x09] = ''%9'' \<and> percent_encode [CHR 0x09] = ''%09''"
  by code_simp

section \<open>Specification table\<close>

lemma py_replace_char:
  "py_replace [a] [b] s = map (\<lambda>c. if c = a then b else c) s"
  by (induction s) auto

lemma label_key_chars:
  "label_key l = map (\<lambda>c. lower_char (if c = CHR '' '' then CHR ''_'' else c)) l"
  by (simp add: label_key_def py_lower_def py_replace_char)

lemma specs_loop_map_of:
  "map_of (specs_loop ps d) =
     map_of (rev (map (\<lambda>(l, v). (label_key l, spec_value v)) ps) @ d)"
proof (induction ps arbitrary: d)
  case Nil
  show ?case by simp
next
  case (Cons p ps)
  obtain l v where p: "p = (l, v)" by (cases p)
  show ?case
    by (simp add: p Cons.IH update_conv' map_add_def fun_eq_iff split: option.splits)
qed

lemma specs_loop_distinct:
  "distinct (map fst d) \<Longrightarrow> distinct (map fst (specs_loop ps d))"
proof (induction ps arbitrary: d)
  case Nil
  then show ?case by simp
next
  case (Cons p ps)
  obtain l v where p: "p = (l, v)" by (cases p)
  show ?case
    using Cons.prems by (simp add: p Cons.IH distinct_update)
qed

lemma map_of_rev_last:
  assumes "i < length xs"
    and "\<forall>j. i < j \<and> j < length xs \<longrightarrow> fst (xs ! j) \<noteq> fst (xs ! i)"
  shows "map_of (rev xs) (fst (xs ! i)) = Some (snd (xs ! i))"
  using assms
proof (induction xs rule: rev_induct)
  case Nil
  then show ?case by simp
next
  case (snoc x xs)
  show ?case
  proof (cases "i = length xs")
    case True
    then show ?thesis by simp
  next
    case False
    with snoc.prems(1) have i: "i < length xs" by simp
    have ne: "fst x \<noteq> fst (xs ! i)"
      using snoc.prems(2) [rule_format, of "length xs"] i by (simp add: nth_append)
    have "\<forall>j. i < j \<and> j < length xs \<longrightarrow> fst (xs ! j) \<noteq> fst (xs ! i)"
    proof (intro allI impI)
      fix j assume j: "i < j \<and> j < length xs"
      then show "fst (xs ! j) \<noteq> fst (xs ! i)"
        using snoc.prems(2) [rule_format, of j] i by (simp add: nth_append)
    qed
    then have "map_of (rev xs) (fst (xs ! i)) = Some (snd (xs ! i))"
      using snoc.IH i by blast
    then show ?thesis using ne i by (simp add: nth_append)
  qed
qed

lemma build_specs_map_of:
  "map_of (build_specs spec_labels spec_values) =
     map_of (rev (map (\<lambda>(l, v). (label_key l, spec_value v))
       (zip (filter (\<lambda>a. a \<noteq> []) spec_labels) (filter (\<lambda>a. a \<noteq> []) spec_values))))"
  by (simp add: build_specs_def specs_loop_map_of)

lemma build_specs_keys:
  "fst ` set (build_specs spec_labels spec_values) =
     label_key ` set (take (length (filter (\<lambda>a. a \<noteq> []) spec_values))
       (filter (\<lambda>a. a \<noteq> []) spec_labels))"
proof -
  let ?ls = "filter (\<lambda>a. a \<noteq> []) spec_labels"
  let ?vs = "filter (\<lambda>a. a \<noteq> []) spec_values"
  let ?ps = "map (\<lambda>(l, v). (label_key l, spec_value v)) (zip ?ls ?vs)"
  have "fst ` set (build_specs spec_labels spec_values) = dom (map_of (build_specs spec_labels spec_values))"
    by (simp add: dom_map_of_conv_image_fst)
  also have "\<dots> = dom (map_of (rev ?ps))"
    by (simp only: build_specs_map_of)
  also have "\<dots> = fst ` set ?ps"
    by (simp add: dom_map_of_conv_image_fst)
  also have "\<dots> = label_key ` fst ` set (zip ?ls ?vs)"
    by (force simp: image_iff)
  also have "fst ` set (zip ?ls ?vs) = set (map fst (zip ?ls ?vs))" by simp
  also have "map fst (zip ?ls ?vs) = take (min (length ?ls) (length ?vs)) ?ls"
    by (rule map_fst_zip_take)
  also have "take (min (length ?ls) (length ?vs)) ?ls = take (length ?vs) ?ls"
    by (cases "length ?ls \<le> length ?vs") (simp_all add: min_def)
  finally show ?thesis .
qed

lemma build_specs_positional:
  assumes "i < min (length ls) (length vs)"
    and "\<forall>j. i < j \<and> j < min (length ls) (length vs) \<longrightarrow> label_key (ls ! j) \<noteq> label_key (ls ! i)"
  shows "map_of (rev (map (\<lambda>(l, v). (label_key l, spec_value v)) (zip ls vs))) (label_key (ls ! i))
       = Some (spec_value (vs ! i))"
proof -
  let ?xs = "map (\<lambda>(l, v). (label_key l, spec_value v)) (zip ls vs)"
  have len: "length ?xs = min (length ls) (length vs)" by simp
  have nth: "\<And>j. j < min (length ls) (length vs) \<Longrightarrow> ?xs ! j = (label_key (ls ! j), spec_value (vs ! j))"
    by simp
  have "map_of (rev ?xs) (fst (?xs ! i)) = Some (snd (?xs ! i))"
  proof (rule map_of_rev_last)
    show "i < length ?xs" using assms(1) by simp
    show "\<forall>j. i < j \<and> j < length ?xs \<longrightarrow> fst (?xs ! j) \<noteq> fst (?xs ! i)"
      using assms by (simp add: nth)
  qed
  then show ?thesis using assms(1) by (simp add: nth)
qed

text \<open>
  C2. On a page with the specs tab, \<open>get_specs\<close> stores a dictionary built from the
  labels and the values that are left after the empty strings are removed from each
  list on its own: the pairs are taken by position up to the shorter list, the key of a
  pair is its label with every space replaced by an underscore and every character
  lower-cased, and a key that occurs again takes the value of its last pair.
\<close>

theorem get_specs_pairs:
  assumes "driver st = Some pg" and "specs_tab pg"
    and "span_label pg = Some spec_labels" and "span_value pg = Some spec_values"
  shows "let ls = filter (\<lambda>a. a \<noteq> []) spec_labels; vs = filter (\<lambda>a. a \<noteq> []) spec_values;
             n = min (length ls) (length vs)
         in \<exists>d. get_specs st = (Inr (), st\<lparr>product_info := (product_info st)\<lparr>specs := Some d\<rparr>\<rparr>) \<and>
            map_of d = map_of (rev (map (\<lambda>(l, v). (label_key l, spec_value v)) (zip ls vs))) \<and>
            distinct (map fst d) \<and>
            fst ` set d = label_key ` set (take n ls) \<and>
            (\<forall>i<n. (\<forall>j. i < j \<and> j < n \<longrightarrow> label_key (ls ! j) \<noteq> label_key (ls ! i)) \<longrightarrow>
               map_of d (label_key (ls ! i)) = Some (spec_value (vs ! i))) \<and>
            (\<forall>l. label_key l = map (\<lambda>c. lower_char (if c = CHR '' '' then CHR ''_'' else c)) l)"
proof -
  let ?ls = "filter (\<lambda>a. a \<noteq> []) spec_labels"
  let ?vs = "filter (\<lambda>a. a \<noteq> []) spec_values"
  let ?n = "min (length ?ls) (length ?vs)"
  let ?d = "build_specs spec_labels spec_values"
  have run: "get_specs st = (Inr (), st\<lparr>product_info := (product_info st)\<lparr>specs := Some ?d\<rparr>\<rparr>)"
    using assms by (simp add: get_specs_def)
  have m: "map_of ?d = map_of (rev (map (\<lambda>(l, v). (label_key l, spec_value v)) (zip ?ls ?vs)))"
    by (rule build_specs_map_of)
  have dist: "distinct (map fst ?d)"
    by (simp add: build_specs_def specs_loop_distinct)
  have "take (length ?vs) ?ls = take ?n ?ls"
    by (cases "length ?ls \<le> length ?vs") (simp_all add: min_def)
  then have keys: "fst ` set ?d = label_key ` set (take ?n ?ls)"
    using build_specs_keys [of spec_labels spec_values] by simp
  have pos: "\<forall>i<?n. (\<forall>j. i < j \<and> j < ?n \<longrightarrow> label_key (?ls ! j) \<noteq> label_key (?ls ! i)) \<longrightarrow>
               map_of ?d (label_key (?ls ! i)) = Some (spec_value (?vs ! i))"
    using build_specs_positional [of _ ?ls ?vs] by (simp only: m) blast
  show ?thesis
    unfolding Let_def using run m dist keys pos label_key_chars by blast
qed

theorem get_specs_pairs_witness:
  "\<exists>d. get_specs (example_state\<lparr>driver := Some page_M1\<rparr>) =
        (Inr (), example_state\<lparr>driver := Some page_M1,
           product_info := JsonSchema\<lparr>specs := Some d\<rparr>\<rparr>) \<and>
       map_of d ''frame'' = Some [] \<and> map_of d ''rated_power'' = Some ''7''"
proof -
  let ?st = "example_state\<lparr>driver := Some page_M1\<rparr>"
  let ?labels = "[''Rated Power'', [], ''Frame'', ''Rated power'']"
  let ?vals = "[''4.5 in (114 mm)'', ''N/A'', [], ''7 kW'']"
  have a: "driver ?st = Some page_M1" by simp
  have b: "specs_tab page_M1" by (simp add: page_M1_def)
  have c: "span_label page_M1 = Some ?labels" by (simp add: page_M1_def)
  have d: "span_value page_M1 = Some ?vals" by (simp add: page_M1_def)
  have pi: "product_info ?st = JsonSchema" by (simp add: example_state_def)
  have f: "map_of (rev (map (\<lambda>(l, v). (label_key l, spec_value v))
      (zip (filter (\<lambda>a. a \<noteq> []) ?labels) (filter (\<lambda>a. a \<noteq> []) ?vals)))) ''frame'' = Some []"
    by code_simp
  have r: "map_of (rev (map (\<lambda>(l, v). (label_key l, spec_value v))
      (zip (filter (\<lambda>a. a \<noteq> []) ?labels) (filter (\<lambda>a. a \<noteq> []) ?vals)))) ''rated_power'' = Some ''7''"
    by code_simp
  from get_specs_pairs [OF a b c d]
  obtain dd where run: "get_specs ?st = (Inr (), ?st\<lparr>product_info := (product_info ?st)\<lparr>specs := Some dd\<rparr>\<rparr>)"
    and m: "map_of dd = map_of (rev (map (\<lambda>(l, v). (label_key l, spec_value v))
      (zip (filter (\<lambda>a. a \<noteq> []) ?labels) (filter (\<lambda>a. a \<noteq> []) ?vals))))"
    unfolding Let_def by blast
  have "map_of dd ''frame'' = Some []" by (simp only: m f)
  moreover have "map_of dd ''rated_power'' = Some ''7''" by (simp only: m r)
  moreover have "get_specs ?st = (Inr (), example_state\<lparr>driver := Some page_M1,
           product_info := JsonSchema\<lparr>specs := Some dd\<rparr>\<rparr>)"
    using run by (simp add: pi)
  ultimately show ?thesis by blast
qed

section \<open>The existence probe\<close>

lemma run_scrapping_skips:
  assumes "http_get e product_url \<in> {Timeout, ConnectionError, HTTPError}"
  shows "\<exists>m. run_scrapping e product_url st =
           (Inr (), st\<lparr>logged := logged st @ [(INFO, ''Scrapping: '' @ product_url), (ERROR, m)]\<rparr>) \<and>
         scrape_all e (product_url # rest) st =
           scrape_all e rest
             ((instantiate st)\<lparr>logged := logged st @ [(INFO, ''Scrapping: '' @ product_url), (ERROR, m)]\<rparr>)"
  using assms
  by (auto simp: run_scrapping_def get_response_def log_msg_def instantiate_def)

text \<open>
  C8, at a probe that fails with an exception other than the three that
  \<open>get_response\<close> names (too many redirects, say): \<open>logger.error(error)\<close> reads a name
  that the \<open>except ... as error\<close> clause has unbound, so nothing is logged about the
  failure, the exception leaves \<open>run_scrapping\<close>, and the loop over the products ends.
\<close>

theorem run_scrapping_unnamed_exception:
  assumes "http_get e product_url = OtherException"
  shows "run_scrapping e product_url st =
           (Inl UnboundLocalError, log_msg INFO (''Scrapping: '' @ product_url) st) \<and>
         scrape_all e (product_url # rest) st =
           (Inl UnboundLocalError, log_msg INFO (''Scrapping: '' @ product_url) (instantiate st))"
  using assms by (simp add: run_scrapping_def get_response_def)

theorem run_scrapping_unnamed_exception_witness:
  "fst (scrape_all example_env [PRODUCT_URL @ ''M4'', PRODUCT_URL @ ''M1''] example_state) =
     Inl UnboundLocalError \<and>
   files (snd (scrape_all example_env [PRODUCT_URL @ ''M4'', PRODUCT_URL @ ''M1''] example_state)) = [] \<and>
   logged (snd (scrape_all example_env [PRODUCT_URL @ ''M4'', PRODUCT_URL @ ''M1''] example_state)) =
     [(INFO, ''Scrapping: https://www.baldor.com/catalog/M4'')]"
proof -
  have h: "http_get example_env (PRODUCT_URL @ ''M4'') = OtherException"
    by (simp add: example_env_def PRODUCT_URL_def CATALOG_URL_def)
  show ?thesis
    using run_scrapping_unnamed_exception [OF h, where rest = "[PRODUCT_URL @ ''M1'']" and st = example_state]
    by (simp add: log_msg_def instantiate_def example_state_def PRODUCT_URL_def)
qed

section \<open>What a stage may change\<close>

lemma downloads_only_refl [simp]: "downloads_only st st"
  by (simp add: downloads_only_def)

lemma downloads_only_trans:
  "downloads_only a b \<Longrightarrow> downloads_only b c \<Longrightarrow> downloads_only a c"
  by (auto simp: downloads_only_def)

lemma downloads_only_log [simp]: "downloads_only st (log_msg l m st)"
  by (simp add: downloads_only_def log_msg_def)

lemma downloads_only_then:
  assumes "then_do r f = (res, s')"
    and "\<And>x s. r = (x, s) \<Longrightarrow> downloads_only s0 s"
    and "\<And>a s. r = (Inr a, s) \<Longrightarrow> f a s = (res, s') \<Longrightarrow> downloads_only s s'"
  shows "downloads_only s0 s'"
  using assms(1)
proof (cases rule: then_do_cases)
  case (raised err)
  then show ?thesis using assms(2) by blast
next
  case (went_on a s)
  then show ?thesis using assms(2,3) downloads_only_trans by blast
qed

lemma get_response_frame:
  "get_response e u st = (r, st') \<Longrightarrow>
     downloads_only st st' \<and> files st' = files st \<and> product_info st' = product_info st"
  by (auto simp: get_response_def log_msg_def downloads_only_def split: http_outcome.splits)

lemma download_frame:
  "download e u p st = (r, st') \<Longrightarrow> downloads_only st st'"
  by (auto simp: download_def get_response_def log_msg_def downloads_only_def is_download_def
      split: http_outcome.splits)

lemma get_specs_frame:
  "get_specs st = (r, st') \<Longrightarrow>
     downloads_only st st' \<and> files st' = files st \<and>
     assets (product_info st') = assets (product_info st)"
  by (auto simp: get_specs_def log_msg_def downloads_only_def
      split: option.splits if_splits)

lemma get_bom_frame:
  "get_bom e st = (r, st') \<Longrightarrow>
     downloads_only st st' \<and> files st' = files st \<and>
     assets (product_info st') = assets (product_info st)"
  by (auto simp: get_bom_def log_msg_def downloads_only_def
      split: option.splits if_splits sum.splits)

lemma download_files_frame:
  "download_files e file out_path st = (r, st') \<Longrightarrow> downloads_only st st'"
  by (auto simp: download_files_def split: option.splits
      elim!: then_do_cases dest: download_frame)

lemma cad_loop_frame:
  "cad_loop e p items acc st = (r, st') \<Longrightarrow> downloads_only st st'"
proof (induction items arbitrary: acc st)
  case Nil
  then show ?case by simp
next
  case (Cons cad_info rest)
  from Cons.prems show ?case
    by (auto simp: then_do_def split: sum.splits prod.splits if_splits
        dest!: download_frame Cons.IH intro: downloads_only_trans)
qed

lemma download_cad_frame:
  "download_cad e p st = (r, st') \<Longrightarrow> downloads_only st st'"
  by (auto simp: download_cad_def then_do_def
      split: option.splits sum.splits prod.splits if_splits
      dest!: cad_loop_frame intro: downloads_only_trans [OF _ downloads_only_log])

lemma downloads_only_dirs [simp]: "downloads_only st (st\<lparr>dirs := d\<rparr>)"
  by (simp add: downloads_only_def)

lemma downloads_only_assets [simp]:
  "downloads_only st (st\<lparr>product_info := (product_info st)\<lparr>assets := a\<rparr>\<rparr>)"
  by (simp add: downloads_only_def)

lemma download_assets_frame:
  "download_assets e st = (r, st') \<Longrightarrow> downloads_only st st'"
proof -
  assume a: "download_assets e st = (r, st')"
  show ?thesis
  proof (cases "driver st")
    case None
    with a show ?thesis by (simp add: download_assets_def)
  next
    case (Some pg)
    show ?thesis
    proof (cases "drawings_tab pg")
      case False
      with a Some show ?thesis by (simp add: download_assets_def)
    next
      case True
      show ?thesis
      proof (cases "product_id (product_info st)")
        case None
        with a Some True show ?thesis by (simp add: download_assets_def)
      next
        case (Some prod_id)
        let ?d = "''output/assets/'' @ prod_id"
        let ?st0 = "st\<lparr>dirs := dirs st @ [?d]\<rparr>"
        from a \<open>driver st = Some pg\<close> True Some
        have run: "then_do (download_files e (product_image pg) (?d @ ''/img.jpg'') ?st0) (\<lambda>img st.
                then_do (download_files e (info_packet pg) (?d @ ''/manual.pdf'') st) (\<lambda>pdf st.
                then_do (download_cad e ?d st) (\<lambda>cads st.
                  (Inr (), st\<lparr>product_info := (product_info st)
                     \<lparr>assets := Some \<lparr>image = img, manual = pdf, cad = cads\<rparr>\<rparr>\<rparr>)))) = (r, st')"
          by (simp add: download_assets_def)
        have "downloads_only ?st0 st'"
          using run
          by (auto elim!: then_do_cases
              dest!: download_files_frame download_cad_frame
              intro: downloads_only_trans [OF _ downloads_only_assets] downloads_only_trans)
        then show ?thesis
          using downloads_only_trans [OF downloads_only_dirs] by blast
      qed
    qed
  qed
qed

lemma get_head_frame:
  "get_head st = (r, st') \<Longrightarrow>
     driver st' = driver st \<and> sessions st' = sessions st \<and> files st' = files st \<and>
     assets (product_info st') = assets (product_info st) \<and>
     (\<forall>pg. driver st = Some pg \<longrightarrow> r = Inr () \<and> product_id (product_info st') = page_title pg)"
  by (auto simp: get_head_def split: option.splits)

lemma run_pipe_frame:
  assumes "run_pipe e st = (r, st')" and "driver st = Some pg"
  shows "driver st' = Some pg \<and> sessions st' = sessions st \<and>
         product_id (product_info st') = page_title pg \<and>
         (\<exists>bs. files st' = files st @ bs \<and> list_all (\<lambda>(p, w). is_download w) bs)"
proof -
  obtain r1 s1 where h: "get_head st = (r1, s1)" by (cases "get_head st")
  from get_head_frame [OF h] assms(2)
  have s1: "driver s1 = Some pg" "sessions s1 = sessions st" "files s1 = files st"
    "product_id (product_info s1) = page_title pg" and r1: "r1 = Inr ()"
    by auto
  from assms(1) h r1
  have rest: "then_do (get_specs s1) (\<lambda>_ st. then_do (get_bom e st) (\<lambda>_ st. download_assets e st)) = (r, st')"
    by (simp add: run_pipe_def)
  have "downloads_only s1 st'"
    using rest
    by (auto elim!: then_do_cases dest!: get_specs_frame get_bom_frame download_assets_frame
        intro: downloads_only_trans)
  then show ?thesis using s1 by (auto simp: downloads_only_def)
qed

section \<open>Bill of materials\<close>

lemma astype_float_fails:
  "Some tok \<in> set cs \<Longrightarrow> f tok = None \<Longrightarrow> astype_float f cs = Inl ValueError"
proof (induction f cs rule: astype_float.induct)
  case (1 f)
  then show ?case by simp
next
  case (2 f cs)
  then show ?case by simp
next
  case (3 f t cs)
  then show ?case by (cases "f t") auto
qed

lemma astype_float_ok:
  "\<forall>tok. Some tok \<in> set cs \<longrightarrow> f tok \<noteq> None \<Longrightarrow>
     astype_float f cs = Inr (map (\<lambda>c. case c of None \<Rightarrow> None | Some t \<Rightarrow> f t) cs)"
proof (induction f cs rule: astype_float.induct)
  case (1 f)
  then show ?case by simp
next
  case (2 f cs)
  then show ?case by simp
next
  case (3 f t cs)
  then show ?case by (cases "f t") auto
qed

lemma fold_update_map_of:
  "map_of (fold (\<lambda>(k, x) row. AList.update k (g x) row) xs acc) =
     map_of (rev (map (\<lambda>(k, x). (k, g x)) xs) @ acc)"
proof (induction xs arbitrary: acc)
  case Nil
  show ?case by simp
next
  case (Cons p ps)
  obtain k x where p: "p = (k, x)" by (cases p)
  show ?case
    by (simp add: p Cons.IH update_conv' map_add_def fun_eq_iff split: option.splits)
qed

lemma map_of_all_same:
  assumes "k \<in> fst ` set xs" and "\<forall>(k', v')\<in>set xs. k' = k \<longrightarrow> v' = v"
  shows "map_of xs k = Some v"
proof -
  from assms(1) obtain v' where "map_of xs k = Some v'"
    by (metis domD dom_map_of_conv_image_fst)
  moreover from this have "(k, v') \<in> set xs" by (rule map_of_SomeD)
  ultimately show ?thesis using assms(2) by auto
qed

lemma row_quantity:
  assumes "filter (\<lambda>(col, cells). col = ''quantity'') df \<noteq> []"
  shows "map_of (fold (\<lambda>(col, cells) row. AList.update col (cell_at cells i) row)
            (set_quantity vs df) []) ''quantity'' = Some (cell_at (NumCol vs) i)"
proof -
  let ?xs = "rev (map (\<lambda>(k, x). (k, cell_at x i)) (set_quantity vs df))"
  from assms obtain col cells where "(col, cells) \<in> set df" "col = ''quantity''"
    by (auto simp: filter_empty_conv)
  then have k: "''quantity'' \<in> fst ` set ?xs"
    by (force simp: set_quantity_def image_iff)
  have v: "\<forall>(k', v')\<in>set ?xs. k' = ''quantity'' \<longrightarrow> v' = cell_at (NumCol vs) i"
    by (auto simp: set_quantity_def split: if_splits)
  have "map_of ?xs ''quantity'' = Some (cell_at (NumCol vs) i)"
    using k v by (rule map_of_all_same)
  then show ?thesis
    using fold_update_map_of [of "\<lambda>x. cell_at x i" "set_quantity vs df" "[]"] by simp
qed

lemma quantity_length:
  assumes "rectangular df" and "(col, TextCol cells) \<in> set df"
  shows "length (to_dict_records (set_quantity vs df)) = (case df of [] \<Rightarrow> 0 | (c, xs) # _ \<Rightarrow>
           if c = ''quantity'' then length vs else length cells)"
proof (cases df)
  case Nil
  with assms(2) show ?thesis by simp
next
  case (Cons p rest)
  obtain c xs where p: "p = (c, xs)" by (cases p)
  have "col_length xs = length cells"
    using assms Cons p
    by (auto simp: rectangular_def list_all_iff col_length_def)
  then show ?thesis
    using Cons p by (simp add: to_dict_records_def set_quantity_def col_length_def)
qed

lemma to_dict_records_nth:
  assumes "i < length (to_dict_records df)"
  shows "to_dict_records df ! i = fold (\<lambda>(col, cells) row. AList.update col (cell_at cells i) row) df []"
  using assms by (auto simp: to_dict_records_def split: list.splits)

lemma get_bom_text_column:
  assumes "driver st = Some pg" and "parts_tab pg" and "parts_pane pg = Some outer_html"
    and "convert_html_table e outer_html = Inr df" and "\<not> df_empty df" and "rectangular df"
    and "filter (\<lambda>(col, cells). col = ''quantity'') df = [(''quantity'', TextCol cells)]"
  shows "((\<exists>s. Some s \<in> set cells \<and> to_float e (first_token s) = None) \<longrightarrow>
            get_bom e st = (Inl ValueError, st)) \<and>
         ((\<forall>s. Some s \<in> set cells \<longrightarrow> to_float e (first_token s) \<noteq> None) \<longrightarrow>
            (\<exists>rows. get_bom e st = (Inr (), st\<lparr>product_info := (product_info st)\<lparr>bom := Some rows\<rparr>\<rparr>) \<and>
               length rows = length cells \<and>
               (\<forall>i<length cells. map_of (rows ! i) ''quantity'' =
                  Some (case cells ! i of None \<Rightarrow> NaN
                        | Some s \<Rightarrow> (case to_float e (first_token s) of None \<Rightarrow> NaN | Some v \<Rightarrow> Num v))))) \<and>
         first_token ''12 EA'' = ''12''"
proof (intro conjI impI)
  have q: "quantity_floats e df = astype_float (to_float e) (map (map_option first_token) cells)"
    using assms(7) by (simp add: quantity_floats_def)
  have bom: "get_bom e st =
      (case quantity_floats e df of
         Inl err \<Rightarrow> (Inl err, st)
       | Inr vs \<Rightarrow> (Inr (), st\<lparr>product_info := (product_info st)
            \<lparr>bom := Some (to_dict_records (set_quantity vs df))\<rparr>\<rparr>))"
    using assms(1-5) by (simp add: get_bom_def)
  show "first_token ''12 EA'' = ''12''" by (simp add: first_token_def)
  {
    assume "\<exists>s. Some s \<in> set cells \<and> to_float e (first_token s) = None"
    then obtain s where s: "Some s \<in> set cells" "to_float e (first_token s) = None" by blast
    then have "Some (first_token s) \<in> set (map (map_option first_token) cells)" by force
    then have "quantity_floats e df = Inl ValueError"
      unfolding q using s(2) by (rule astype_float_fails)
    then show "get_bom e st = (Inl ValueError, st)" using bom by simp
  }
  {
    assume ok: "\<forall>s. Some s \<in> set cells \<longrightarrow> to_float e (first_token s) \<noteq> None"
    let ?vs = "map (\<lambda>c. case c of None \<Rightarrow> None | Some t \<Rightarrow> to_float e t) (map (map_option first_token) cells)"
    let ?rows = "to_dict_records (set_quantity ?vs df)"
    have "\<forall>tok. Some tok \<in> set (map (map_option first_token) cells) \<longrightarrow> to_float e tok \<noteq> None"
    proof (intro allI impI)
      fix tok assume "Some tok \<in> set (map (map_option first_token) cells)"
      then obtain x where x: "x \<in> set cells" "Some tok = map_option first_token x" by auto
      from x(2) obtain s where "x = Some s" "tok = first_token s" by (cases x) auto
      then show "to_float e tok \<noteq> None" using ok x(1) by blast
    qed
    then have "quantity_floats e df = Inr ?vs"
      unfolding q by (rule astype_float_ok)
    then have run: "get_bom e st = (Inr (), st\<lparr>product_info := (product_info st)\<lparr>bom := Some ?rows\<rparr>\<rparr>)"
      using bom by simp
    have mem: "(''quantity'', TextCol cells) \<in> set df"
    proof -
      have "(''quantity'', TextCol cells) \<in> set (filter (\<lambda>(col, cells). col = ''quantity'') df)"
        by (simp add: assms(7))
      then show ?thesis by simp
    qed
    have len: "length ?rows = length cells"
      using quantity_length [OF assms(6) mem, of ?vs] assms(5)
      by (auto simp: df_empty_def split: list.splits)
    have rows: "\<forall>i<length cells. map_of (?rows ! i) ''quantity'' =
        Some (case cells ! i of None \<Rightarrow> NaN
              | Some s \<Rightarrow> (case to_float e (first_token s) of None \<Rightarrow> NaN | Some v \<Rightarrow> Num v))"
    proof (intro allI impI)
      fix i assume i: "i < length cells"
      have ne: "filter (\<lambda>(col, cells). col = ''quantity'') df \<noteq> []" by (simp add: assms(7))
      have "map_of (?rows ! i) ''quantity'' = Some (cell_at (NumCol ?vs) i)"
        using i len by (simp add: to_dict_records_nth row_quantity [OF ne])
      also have "cell_at (NumCol ?vs) i =
          (case cells ! i of None \<Rightarrow> NaN
           | Some s \<Rightarrow> (case to_float e (first_token s) of None \<Rightarrow> NaN | Some v \<Rightarrow> Num v))"
        using i by (simp add: cell_at_def split: option.splits)
      finally show "map_of (?rows ! i) ''quantity'' =
          Some (case cells ! i of None \<Rightarrow> NaN
                | Some s \<Rightarrow> (case to_float e (first_token s) of None \<Rightarrow> NaN | Some v \<Rightarrow> Num v))" .
    qed
    show "\<exists>rows. get_bom e st = (Inr (), st\<lparr>product_info := (product_info st)\<lparr>bom := Some rows\<rparr>\<rparr>) \<and>
               length rows = length cells \<and>
               (\<forall>i<length cells. map_of (rows ! i) ''quantity'' =
                  Some (case cells ! i of None \<Rightarrow> NaN
                        | Some s \<Rightarrow> (case to_float e (first_token s) of None \<Rightarrow> NaN | Some v \<Rightarrow> Num v)))"
      using run len rows by blast
  }
qed

lemma first_token_cut:
  "CHR '' '' \<notin> set (first_token s) \<and>
   (s = first_token s \<or> (\<exists>rest. s = first_token s @ CHR '' '' # rest))"
proof -
  let ?P = "\<lambda>c. c \<noteq> CHR '' ''"
  have no: "CHR '' '' \<notin> set (first_token s)"
    by (auto simp: first_token_def dest: set_takeWhileD)
  have split: "s = takeWhile ?P s @ dropWhile ?P s" by simp
  show ?thesis
  proof (cases "dropWhile ?P s")
    case Nil
    with split have "s = first_token s" by (simp add: first_token_def)
    with no show ?thesis by blast
  next
    case (Cons a rest)
    then have "dropWhile ?P s \<noteq> []" by simp
    then have "\<not> ?P (hd (dropWhile ?P s))" by (rule hd_dropWhile)
    then have "a = CHR '' ''" unfolding Cons by simp
    with split Cons have "s = first_token s @ CHR '' '' # rest"
      by (simp add: first_token_def)
    with no show ?thesis by blast
  qed
qed

lemma get_bom_after_table:
  assumes "driver st = Some pg" and "parts_tab pg" and "parts_pane pg = Some outer_html"
    and "convert_html_table e outer_html = Inr df"
  shows "get_bom e st =
     (if df_empty df
      then (Inr (), log_msg WARNING (str_of (product_id (product_info st)) @ '': Product without bom'') st)
      else (case quantity_floats e df of
         Inl err \<Rightarrow> (Inl err, st)
       | Inr vs \<Rightarrow> (Inr (), st\<lparr>product_info := (product_info st)
            \<lparr>bom := Some (to_dict_records (set_quantity vs df))\<rparr>\<rparr>)))"
  using assms by (simp add: get_bom_def)

lemma quantity_floats_other:
  "filter (\<lambda>(col, cells). col = ''quantity'') df = [] \<Longrightarrow> quantity_floats e df = Inl KeyError"
  "filter (\<lambda>(col, cells). col = ''quantity'') df = [(c, NumCol xs)] \<Longrightarrow>
     quantity_floats e df = Inl AttributeError"
  "1 < length (filter (\<lambda>(col, cells). col = ''quantity'') df) \<Longrightarrow>
     quantity_floats e df = Inl AttributeError"
  by (auto simp: quantity_floats_def split: list.splits column.splits)

text \<open>
  C4, as the code has it, for every table that \<open>convert_html_table\<close> returns. An empty
  table gives a warning and no BOM. Of a table with rows, \<open>get_bom\<close> takes the column
  named \<open>quantity\<close>: without such a column it raises KeyError; with a numeric column, or
  with several columns of that name, it raises AttributeError. With one column of text,
  when a cell has a text whose part before the first space (the part \<open>first_token\<close>
  cuts: up to the first space character, or the whole text if there is none) is not a
  number, \<open>get_bom\<close> raises ValueError and leaves the record as it was; otherwise the
  record gets one row per line of the table, and the quantity of a row is the conversion
  of that part of its cell, for \<open>12 EA\<close> the conversion of \<open>12\<close>. A cell that is missing in
  the table is no failure: its quantity is NaN.
\<close>

theorem get_bom_quantity:
  fixes e :: "'f env"
  assumes "driver st = Some pg" and "parts_tab pg" and "parts_pane pg = Some outer_html"
    and "convert_html_table e outer_html = Inr df" and "rectangular df"
  shows "(df_empty df \<longrightarrow>
            get_bom e st = (Inr (), log_msg WARNING
               (str_of (product_id (product_info st)) @ '': Product without bom'') st)) \<and>
         (\<not> df_empty df \<longrightarrow>
            (filter (\<lambda>(col, cells). col = ''quantity'') df = [] \<longrightarrow>
               get_bom e st = (Inl KeyError, st)) \<and>
            (\<forall>c xs. filter (\<lambda>(col, cells). col = ''quantity'') df = [(c, NumCol xs)] \<longrightarrow>
               get_bom e st = (Inl AttributeError, st)) \<and>
            (1 < length (filter (\<lambda>(col, cells). col = ''quantity'') df) \<longrightarrow>
               get_bom e st = (Inl AttributeError, st)) \<and>
            (\<forall>c cells. filter (\<lambda>(col, cells). col = ''quantity'') df = [(c, TextCol cells)] \<longrightarrow>
               ((\<exists>s. Some s \<in> set cells \<and> to_float e (first_token s) = None) \<longrightarrow>
                  get_bom e st = (Inl ValueError, st)) \<and>
               ((\<forall>s. Some s \<in> set cells \<longrightarrow> to_float e (first_token s) \<noteq> None) \<longrightarrow>
                  (\<exists>rows. get_bom e st =
                       (Inr (), st\<lparr>product_info := (product_info st)\<lparr>bom := Some rows\<rparr>\<rparr>) \<and>
                     length rows = length cells \<and>
                     (\<forall>i<length cells. map_of (rows ! i) ''quantity'' =
                        Some (case cells ! i of None \<Rightarrow> NaN
                              | Some s \<Rightarrow> (case to_float e (first_token s) of
                                            None \<Rightarrow> NaN | Some v \<Rightarrow> Num v))))))) \<and>
         (\<forall>s. CHR '' '' \<notin> set (first_token s) \<and>
              (s = first_token s \<or> (\<exists>rest. s = first_token s @ CHR '' '' # rest))) \<and>
         first_token ''12 EA'' = ''12''"
proof -
  note bom = get_bom_after_table [OF assms(1-4)]
  have empty: "df_empty df \<longrightarrow>
      get_bom e st = (Inr (), log_msg WARNING
         (str_of (product_id (product_info st)) @ '': Product without bom'') st)"
    using bom by simp
  have key: "\<not> df_empty df \<longrightarrow> filter (\<lambda>(col, cells). col = ''quantity'') df = [] \<longrightarrow>
      get_bom e st = (Inl KeyError, st)"
    using bom by (simp add: quantity_floats_other(1))
  have num: "\<not> df_empty df \<longrightarrow>
      (\<forall>c xs. filter (\<lambda>(col, cells). col = ''quantity'') df = [(c, NumCol xs)] \<longrightarrow>
         get_bom e st = (Inl AttributeError, st))"
    using bom by (auto simp: quantity_floats_other(2))
  have many: "\<not> df_empty df \<longrightarrow> 1 < length (filter (\<lambda>(col, cells). col = ''quantity'') df) \<longrightarrow>
      get_bom e st = (Inl AttributeError, st)"
    using bom by (simp add: quantity_floats_other(3))
  have one_text: "\<not> df_empty df \<longrightarrow>
      (\<forall>c cells. filter (\<lambda>(col, cells). col = ''quantity'') df = [(c, TextCol cells)] \<longrightarrow>
         ((\<exists>s. Some s \<in> set cells \<and> to_float e (first_token s) = None) \<longrightarrow>
            get_bom e st = (Inl ValueError, st)) \<and>
         ((\<forall>s. Some s \<in> set cells \<longrightarrow> to_float e (first_token s) \<noteq> None) \<longrightarrow>
            (\<exists>rows. get_bom e st =
                 (Inr (), st\<lparr>product_info := (product_info st)\<lparr>bom := Some rows\<rparr>\<rparr>) \<and>
               length rows = length cells \<and>
               (\<forall>i<length cells. map_of (rows ! i) ''quantity'' =
                  Some (case cells ! i of None \<Rightarrow> NaN
                        | Some s \<Rightarrow> (case to_float e (first_token s) of
                                      None \<Rightarrow> NaN | Some v \<Rightarrow> Num v))))))"
  proof (intro impI allI)
    fix c :: string and cells :: "string option list"
    assume ne: "\<not> df_empty df"
      and f: "filter (\<lambda>(col, cells). col = ''quantity'') df = [(c, TextCol cells)]"
    have "(c, TextCol cells) \<in> set (filter (\<lambda>(col, cells). col = ''quantity'') df)"
      by (simp add: f)
    then have "c = ''quantity''" by simp
    with f have f': "filter (\<lambda>(col, cells). col = ''quantity'') df = [(''quantity'', TextCol cells)]"
      by simp
    from get_bom_text_column [OF assms(1-4) ne assms(5) f']
    show "((\<exists>s. Some s \<in> set cells \<and> to_float e (first_token s) = None) \<longrightarrow>
            get_bom e st = (Inl ValueError, st)) \<and>
         ((\<forall>s. Some s \<in> set cells \<longrightarrow> to_float e (first_token s) \<noteq> None) \<longrightarrow>
            (\<exists>rows. get_bom e st =
                 (Inr (), st\<lparr>product_info := (product_info st)\<lparr>bom := Some rows\<rparr>\<rparr>) \<and>
               length rows = length cells \<and>
               (\<forall>i<length cells. map_of (rows ! i) ''quantity'' =
                  Some (case cells ! i of None \<Rightarrow> NaN
                        | Some s \<Rightarrow> (case to_float e (first_token s) of
                                      None \<Rightarrow> NaN | Some v \<Rightarrow> Num v)))))"
      by blast
  qed
  have cut: "\<forall>s. CHR '' '' \<notin> set (first_token s) \<and>
              (s = first_token s \<or> (\<exists>rest. s = first_token s @ CHR '' '' # rest))"
    using first_token_cut by blast
  have ex: "first_token ''12 EA'' = ''12''" by (simp add: first_token_def)
  from empty key num many one_text cut ex show ?thesis by blast
qed

theorem get_bom_quantity_witness:
  "get_bom example_env (example_state\<lparr>driver := Some page_M2\<rparr>) =
     (Inl ValueError, example_state\<lparr>driver := Some page_M2\<rparr>) \<and>
   get_bom example_env (example_state\<lparr>driver := Some page_M8\<rparr>) =
     (Inl AttributeError, example_state\<lparr>driver := Some page_M8\<rparr>) \<and>
   (\<exists>rows. get_bom example_env (example_state\<lparr>driver := Some page_M1\<rparr>) =
       (Inr (), example_state\<lparr>driver := Some page_M1,
          product_info := JsonSchema\<lparr>bom := Some rows\<rparr>\<rparr>) \<and>
      length rows = 2 \<and> map_of (rows ! 0) ''quantity'' = Some (Num 12) \<and>
      map_of (rows ! 1) ''quantity'' = Some NaN)"
proof -
  let ?s2 = "example_state\<lparr>driver := Some page_M2\<rparr>"
  let ?df2 = "[(''quantity'', TextCol [Some ''EA''])] :: int dataframe"
  have a2: "driver ?s2 = Some page_M2" by simp
  have b2: "parts_tab page_M2" by (simp add: page_M2_def)
  have c2: "parts_pane page_M2 = Some ''table-M2''" by (simp add: page_M2_def)
  have d2: "convert_html_table example_env ''table-M2'' = Inr ?df2" by code_simp
  have e2: "\<not> df_empty ?df2" by code_simp
  have f2: "rectangular ?df2" by code_simp
  have g2: "filter (\<lambda>(col, cells). col = ''quantity'') ?df2 = [(''quantity'', TextCol [Some ''EA''])]"
    by simp
  have n2: "to_float example_env (first_token ''EA'') = None" by code_simp
  have x2: "\<exists>s. Some s \<in> set [Some ''EA''] \<and> to_float example_env (first_token s) = None"
    using n2 by auto
  from get_bom_quantity [OF a2 b2 c2 d2 f2] e2 g2 x2
  have fail: "get_bom example_env ?s2 = (Inl ValueError, ?s2)" by blast
  let ?s8 = "example_state\<lparr>driver := Some page_M8\<rparr>"
  let ?df8 = "[(''quantity'', NumCol [Some 4, Some 2])] :: int dataframe"
  have a8: "driver ?s8 = Some page_M8" by simp
  have b8: "parts_tab page_M8" by (simp add: page_M8_def)
  have c8: "parts_pane page_M8 = Some ''table-M8''" by (simp add: page_M8_def)
  have d8: "convert_html_table example_env ''table-M8'' = Inr ?df8" by code_simp
  have e8: "\<not> df_empty ?df8" by code_simp
  have f8: "rectangular ?df8" by code_simp
  have g8: "filter (\<lambda>(col, cells). col = ''quantity'') ?df8 = [(''quantity'', NumCol [Some 4, Some 2])]"
    by simp
  from get_bom_quantity [OF a8 b8 c8 d8 f8] e8 g8
  have numeric: "get_bom example_env ?s8 = (Inl AttributeError, ?s8)" by blast
  let ?s1 = "example_state\<lparr>driver := Some page_M1\<rparr>"
  let ?df1 = "[(''part_number'', TextCol [Some ''A1'', Some ''B2'']),
               (''quantity'', TextCol [Some ''12 EA'', None])] :: int dataframe"
  have a1: "driver ?s1 = Some page_M1" by simp
  have b1: "parts_tab page_M1" by (simp add: page_M1_def)
  have c1: "parts_pane page_M1 = Some ''table-M1''" by (simp add: page_M1_def)
  have d1: "convert_html_table example_env ''table-M1'' = Inr ?df1" by code_simp
  have e1: "\<not> df_empty ?df1" by code_simp
  have f1: "rectangular ?df1" by code_simp
  have g1: "filter (\<lambda>(col, cells). col = ''quantity'') ?df1 = [(''quantity'', TextCol [Some ''12 EA'', None])]"
    by simp
  have n1: "to_float example_env (first_token ''12 EA'') = Some 12" by code_simp
  have ok: "\<forall>s. Some s \<in> set [Some ''12 EA'', None] \<longrightarrow> to_float example_env (first_token s) \<noteq> None"
    using n1 by auto
  have pi: "product_info ?s1 = JsonSchema" by (simp add: example_state_def)
  from get_bom_quantity [OF a1 b1 c1 d1 f1] e1 g1 ok
  obtain rows where run: "get_bom example_env ?s1 =
        (Inr (), ?s1\<lparr>product_info := (product_info ?s1)\<lparr>bom := Some rows\<rparr>\<rparr>)"
    and len: "length rows = length [Some ''12 EA'', None]"
    and q: "\<forall>i<length [Some ''12 EA'', None]. map_of (rows ! i) ''quantity'' =
        Some (case [Some ''12 EA'', None] ! i of None \<Rightarrow> NaN
              | Some s \<Rightarrow> (case to_float example_env (first_token s) of None \<Rightarrow> NaN | Some v \<Rightarrow> Num v))"
    by blast
  have q0: "map_of (rows ! 0) ''quantity'' = Some (Num 12)"
    using q [rule_format, of 0] n1 by simp
  have q1: "map_of (rows ! 1) ''quantity'' = Some NaN"
    using q [rule_format, of 1] by simp
  have "get_bom example_env ?s1 = (Inr (), example_state\<lparr>driver := Some page_M1,
          product_info := JsonSchema\<lparr>bom := Some rows\<rparr>\<rparr>)"
    using run by (simp add: pi)
  then show ?thesis using fail numeric len q0 q1 by auto
qed

text \<open>
  C4 as stated fails, in three ways. The second quantity cell of the table of \<open>M1\<close> is
  missing, so it does not start with a number, and yet \<open>get_bom\<close> returns and records
  the row with the quantity NaN. The quantity cell of \<open>M7\<close> is \<open>12\<close>, a no-break space
  and \<open>EA\<close>: its first whitespace-delimited token is the number \<open>12\<close>, but the code cuts
  at space characters only, converts the whole text and raises ValueError. The quantity
  column of \<open>M8\<close> is numeric: every cell is a number, and \<open>get_bom\<close> raises
  AttributeError.
\<close>

theorem get_bom_missing_cell:
  "fst (get_bom example_env (example_state\<lparr>driver := Some page_M1\<rparr>)) = Inr () \<and>
   bom (product_info (snd (get_bom example_env (example_state\<lparr>driver := Some page_M1\<rparr>)))) =
     Some [[(''part_number'', Str ''A1''), (''quantity'', Num 12)],
           [(''part_number'', Str ''B2''), (''quantity'', NaN)]] \<and>
   first_whitespace_token (''12'' @ CHR 0xA0 # ''EA'') = ''12'' \<and>
   example_to_float ''12'' = Some 12 \<and>
   parts_pane page_M7 = Some ''table-M7'' \<and>
   read_html example_env ''table-M7'' = Inr [[(''Quantity'', TextCol [Some (''12'' @ CHR 0xA0 # ''EA'')])]] \<and>
   fst (get_bom example_env (example_state\<lparr>driver := Some page_M7\<rparr>)) = Inl ValueError \<and>
   parts_pane page_M8 = Some ''table-M8'' \<and>
   read_html example_env ''table-M8'' = Inr [[(''Quantity'', NumCol [Some 4, Some 2])]] \<and>
   fst (get_bom example_env (example_state\<lparr>driver := Some page_M8\<rparr>)) = Inl AttributeError"
  by code_simp

section \<open>The orchestrator\<close>

lemma run_scrapping_loaded:
  assumes "http_get e product_url = Response body" and "render e product_url = Some pg"
  shows "run_scrapping e product_url st =
           then_do (run_pipe e ((log_msg INFO (''Scrapping: '' @ product_url) st)
                       \<lparr>driver := Some pg, sessions := Suc (sessions st)\<rparr>))
             (\<lambda>_ st. then_do (close st) (\<lambda>_ st. persist e st))"
  using assms by (simp add: run_scrapping_def get_response_def load_page_def log_msg_def)

lemma close_loaded:
  "driver s = Some pg \<Longrightarrow> close s = (Inr (), s\<lparr>sessions := sessions s - 1\<rparr>)"
  by (simp add: close_def)

lemma run_scrapping_after_pipe:
  assumes "http_get e product_url = Response body" and "render e product_url = Some pg"
    and "run_pipe e ((log_msg INFO (''Scrapping: '' @ product_url) st)
                       \<lparr>driver := Some pg, sessions := Suc (sessions st)\<rparr>) = (r, s)"
  shows "run_scrapping e product_url st =
           (case r of Inl err \<Rightarrow> (Inl err, s)
            | Inr u \<Rightarrow> persist e (s\<lparr>sessions := sessions st\<rparr>))"
proof -
  let ?loaded = "(log_msg INFO (''Scrapping: '' @ product_url) st)
                       \<lparr>driver := Some pg, sessions := Suc (sessions st)\<rparr>"
  have l: "driver ?loaded = Some pg" by simp
  from run_pipe_frame [OF assms(3) l]
  have d: "driver s = Some pg" and n: "sessions s = Suc (sessions st)" by simp_all
  show ?thesis
    using run_scrapping_loaded [OF assms(1,2), of st] assms(3) close_loaded [OF d] n
    by (cases r) simp_all
qed

lemma json_write_failure:
  assumes "json_dump e fname data \<noteq> Written"
  shows "json_write e fname data st =
           (False, st\<lparr>logged := logged st @ [(ERROR, write_error (json_dump e fname data))]\<rparr>)"
  using assms
  by (cases "json_dump e fname data") (simp_all add: json_write_def log_msg_def write_error_def)

lemma json_write_written:
  assumes "json_dump e fname data = Written"
  shows "json_write e fname data st = (True, st\<lparr>files := files st @ [(fname, Json data)]\<rparr>)"
  using assms by (simp add: json_write_def)

lemma persist_failure:
  assumes "json_dump e (''output/metadata/'' @ str_of (product_id (product_info s)) @ ''.json'')
            (product_info s) \<noteq> Written"
  shows "persist e s =
     (Inr (), s\<lparr>logged := logged s @
        [(ERROR, write_error (json_dump e
            (''output/metadata/'' @ str_of (product_id (product_info s)) @ ''.json'') (product_info s))),
         (SUCCESS, str_of (product_id (product_info s)) @ '': Sucefully scrapping'')]\<rparr>)"
  unfolding persist_def Let_def json_write_failure [OF assms] by (simp add: log_msg_def)

lemma persist_written:
  assumes "json_dump e (''output/metadata/'' @ str_of (product_id (product_info s)) @ ''.json'')
            (product_info s) = Written"
  shows "persist e s =
     (Inr (), s\<lparr>files := files s @
          [(''output/metadata/'' @ str_of (product_id (product_info s)) @ ''.json'', Json (product_info s))],
        logged := logged s @
          [(SUCCESS, str_of (product_id (product_info s)) @ '': Sucefully scrapping'')]\<rparr>)"
  unfolding persist_def Let_def json_write_written [OF assms] by (simp add: log_msg_def)

text \<open>
  C9. A failure of the write inside \<open>json_write\<close>, of whatever kind, gives the result
  False and one error line in the log. In \<open>run_scrapping\<close>, once the extractor stages
  have returned, such a failure raises nothing: the call returns, no file is recorded,
  the log holds the error line, and the loop of \<open>main\<close> goes on with the next URLs.
\<close>

theorem json_write_failure_contained:
  assumes "http_get e product_url = Response body" and "render e product_url = Some pg"
    and "run_pipe e ((log_msg INFO (''Scrapping: '' @ product_url) (instantiate st0))
           \<lparr>driver := Some pg, sessions := Suc (sessions st0)\<rparr>) = (Inr (), s)"
    and "json_dump e (''output/metadata/'' @ str_of (page_title pg) @ ''.json'') (product_info s)
           \<noteq> Written"
  shows "\<exists>m st'.
           json_write e (''output/metadata/'' @ str_of (page_title pg) @ ''.json'') (product_info s) s =
             (False, s\<lparr>logged := logged s @ [(ERROR, m)]\<rparr>) \<and>
           run_scrapping e product_url (instantiate st0) = (Inr (), st') \<and>
           (ERROR, m) \<in> set (logged st') \<and> files st' = files s \<and>
           scrape_all e (product_url # rest) st0 = scrape_all e rest st'"
proof -
  let ?st = "instantiate st0"
  let ?loaded = "(log_msg INFO (''Scrapping: '' @ product_url) ?st)
           \<lparr>driver := Some pg, sessions := Suc (sessions ?st)\<rparr>"
  let ?path = "''output/metadata/'' @ str_of (page_title pg) @ ''.json''"
  let ?m = "write_error (json_dump e ?path (product_info s))"
  have ses: "sessions ?st = sessions st0" by (simp add: instantiate_def)
  have pipe: "run_pipe e ?loaded = (Inr (), s)" using assms(3) by (simp add: ses)
  have l: "driver ?loaded = Some pg" by simp
  from run_pipe_frame [OF pipe l]
  have pid: "product_id (product_info s) = page_title pg" by simp
  let ?s' = "s\<lparr>sessions := sessions ?st\<rparr>"
  have run: "run_scrapping e product_url ?st = persist e ?s'"
    using run_scrapping_after_pipe [OF assms(1,2) pipe] by simp
  have fail: "json_dump e (''output/metadata/'' @ str_of (product_id (product_info ?s')) @ ''.json'')
      (product_info ?s') \<noteq> Written"
    using assms(4) pid by simp
  let ?st' = "?s'\<lparr>logged := logged ?s' @
      [(ERROR, ?m), (SUCCESS, str_of (page_title pg) @ '': Sucefully scrapping'')]\<rparr>"
  have r: "run_scrapping e product_url ?st = (Inr (), ?st')"
    using run persist_failure [OF fail] pid by simp
  have w: "json_write e ?path (product_info s) s = (False, s\<lparr>logged := logged s @ [(ERROR, ?m)]\<rparr>)"
    by (rule json_write_failure [OF assms(4)])
  have loop: "scrape_all e (product_url # rest) st0 = scrape_all e rest ?st'"
    using r by simp
  have "(ERROR, ?m) \<in> set (logged ?st')" by simp
  moreover have "files ?st' = files s" by simp
  ultimately show ?thesis using w r loop by blast
qed

theorem json_write_failure_contained_witness:
  "fst (scrape_all example_env [PRODUCT_URL @ ''M5'', PRODUCT_URL @ ''M3''] example_state) = Inr () \<and>
   map fst (files (snd (scrape_all example_env [PRODUCT_URL @ ''M5'', PRODUCT_URL @ ''M3''] example_state)))
     = [''output/metadata/None.json''] \<and>
   (ERROR, ''TypeError: Data provided is not serializable to JSON.'') \<in>
     set (logged (snd (scrape_all example_env [PRODUCT_URL @ ''M5'', PRODUCT_URL @ ''M3''] example_state)))"
proof -
  let ?url = "PRODUCT_URL @ ''M5''"
  let ?s = "example_state\<lparr>driver := Some page_M5, sessions := 1,
      logged := [(INFO, ''Scrapping: '' @ ?url)],
      product_info := JsonSchema\<lparr>product_id := Some ''M5''\<rparr>\<rparr>"
  have a: "http_get example_env ?url = Response ''page''" by code_simp
  have b: "render example_env ?url = Some page_M5" by code_simp
  have c: "run_pipe example_env ((log_msg INFO (''Scrapping: '' @ ?url) (instantiate example_state))
           \<lparr>driver := Some page_M5, sessions := Suc (sessions example_state)\<rparr>) = (Inr (), ?s)"
    by code_simp
  have d: "json_dump example_env (''output/metadata/'' @ str_of (page_title page_M5) @ ''.json'')
      (product_info ?s) \<noteq> Written"
    by code_simp
  from json_write_failure_contained [OF a b c d, of "[PRODUCT_URL @ ''M3'']"]
  obtain m st' where w: "json_write example_env (''output/metadata/'' @ str_of (page_title page_M5) @ ''.json'')
        (product_info ?s) ?s = (False, ?s\<lparr>logged := logged ?s @ [(ERROR, m)]\<rparr>)"
    and m: "(ERROR, m) \<in> set (logged st')"
    and loop: "scrape_all example_env [?url, PRODUCT_URL @ ''M3''] example_state =
        scrape_all example_env [PRODUCT_URL @ ''M3''] st'"
    by blast
  have "fst (scrape_all example_env [?url, PRODUCT_URL @ ''M3''] example_state) = Inr ()"
    by code_simp
  moreover have "map fst (files (snd (scrape_all example_env [?url, PRODUCT_URL @ ''M3''] example_state)))
     = [''output/metadata/None.json'']"
    by code_simp
  moreover have "(ERROR, ''TypeError: Data provided is not serializable to JSON.'') \<in>
     set (logged (snd (scrape_all example_env [?url, PRODUCT_URL @ ''M3''] example_state)))"
    by code_simp
  ultimately show ?thesis using loop by blast
qed

section \<open>Assets without the drawings tab\<close>

lemma download_assets_no_tab:
  "driver s = Some pg \<Longrightarrow> \<not> drawings_tab pg \<Longrightarrow> download_assets e s = (Inr (), s)"
  by (simp add: download_assets_def)

lemma pipe_before_assets:
  assumes "run_pipe e st = (r, st')" and "driver st = Some pg"
  obtains (early) err where "r = Inl err" "files st' = files st"
      "assets (product_info st') = assets (product_info st)" "driver st' = Some pg"
      "sessions st' = sessions st" "product_id (product_info st') = page_title pg"
    | (assets) s where "download_assets e s = (r, st')" "files s = files st"
      "assets (product_info s) = assets (product_info st)" "driver s = Some pg"
      "sessions s = sessions st" "product_id (product_info s) = page_title pg"
proof -
  obtain r1 s1 where h: "get_head st = (r1, s1)" by (cases "get_head st")
  from get_head_frame [OF h] assms(2)
  have s1: "driver s1 = Some pg" "sessions s1 = sessions st" "files s1 = files st"
    "product_id (product_info s1) = page_title pg"
    "assets (product_info s1) = assets (product_info st)" and r1: "r1 = Inr ()"
    by auto
  obtain r2 s2 where sp: "get_specs s1 = (r2, s2)" by (cases "get_specs s1")
  from get_specs_frame [OF sp] s1
  have s2: "driver s2 = Some pg" "sessions s2 = sessions st" "files s2 = files st"
    "product_id (product_info s2) = page_title pg"
    "assets (product_info s2) = assets (product_info st)"
    by (auto simp: downloads_only_def)
  obtain r3 s3 where bm: "get_bom e s2 = (r3, s3)" by (cases "get_bom e s2")
  from get_bom_frame [OF bm] s2
  have s3: "driver s3 = Some pg" "sessions s3 = sessions st" "files s3 = files st"
    "product_id (product_info s3) = page_title pg"
    "assets (product_info s3) = assets (product_info st)"
    by (auto simp: downloads_only_def)
  show ?thesis
  proof (cases r2)
    case (Inl err)
    with assms(1) h r1 sp have "r = Inl err" "st' = s2" by (simp_all add: run_pipe_def)
    with s2 early show ?thesis by blast
  next
    case r2: (Inr u)
    show ?thesis
    proof (cases r3)
      case (Inl err)
      with assms(1) h r1 sp r2 bm have "r = Inl err" "st' = s3" by (simp_all add: run_pipe_def)
      with s3 early show ?thesis by blast
    next
      case (Inr v)
      with assms(1) h r1 sp r2 bm have "download_assets e s3 = (r, st')"
        by (simp add: run_pipe_def)
      with s3 assets show ?thesis by blast
    qed
  qed
qed

lemma run_pipe_no_drawings:
  assumes "run_pipe e st = (r, st')" and "driver st = Some pg" and "\<not> drawings_tab pg"
  shows "files st' = files st \<and> assets (product_info st') = assets (product_info st)"
  using assms(1,2)
proof (cases rule: pipe_before_assets)
  case (early err)
  then show ?thesis by simp
next
  case (assets s)
  with download_assets_no_tab [OF assets(4) assms(3), of e] show ?thesis by simp
qed

text \<open>
  C10. On a page without the drawings tab \<open>download_assets\<close> returns at once and leaves
  the state as it is, whatever image and manual elements the page has. Over the whole
  run of such a product the \<open>assets\<close> field stays null, nothing is downloaded, and the
  only file the run may write is the record itself, with \<open>assets\<close> null.
\<close>

theorem download_assets_without_drawings_tab:
  fixes e :: "'f env"
  assumes "render e product_url = Some pg" and "\<not> drawings_tab pg"
    and "assets (product_info st) = None"
  shows "(\<forall>s. driver s = Some pg \<longrightarrow> download_assets e s = (Inr (), s)) \<and>
         (\<forall>r st'. run_scrapping e product_url st = (r, st') \<longrightarrow>
            assets (product_info st') = None \<and>
            (\<exists>new. files st' = files st @ new \<and>
               (\<forall>(p, w)\<in>set new. \<exists>record. w = Json record \<and> assets record = None)))"
proof (intro conjI allI impI)
  fix s :: "'f state" assume "driver s = Some pg"
  then show "download_assets e s = (Inr (), s)"
    using assms(2) by (rule download_assets_no_tab)
next
  fix r st' assume run: "run_scrapping e product_url st = (r, st')"
  let ?goal = "\<lambda>st'. assets (product_info st') = None \<and>
            (\<exists>new. files st' = files st @ new \<and>
               (\<forall>(p, w)\<in>set new. \<exists>record. w = Json record \<and> assets record = None))"
  have "?goal st'"
  proof (cases "http_get e product_url")
    case (Response body)
    let ?loaded = "(log_msg INFO (''Scrapping: '' @ product_url) st)
                       \<lparr>driver := Some pg, sessions := Suc (sessions st)\<rparr>"
    obtain r0 s where pipe: "run_pipe e ?loaded = (r0, s)" by (cases "run_pipe e ?loaded")
    have l: "driver ?loaded = Some pg" by simp
    from run_pipe_no_drawings [OF pipe l assms(2)] assms(3)
    have s: "files s = files st" "assets (product_info s) = None"
      by (simp_all add: log_msg_def)
    show ?thesis
    proof (cases r0)
      case (Inl err)
      with run run_scrapping_after_pipe [OF Response assms(1) pipe] have "st' = s" by simp
      with s show ?thesis by simp
    next
      case (Inr u)
      let ?s' = "s\<lparr>sessions := sessions st\<rparr>"
      let ?path = "''output/metadata/'' @ str_of (product_id (product_info ?s')) @ ''.json''"
      from Inr run run_scrapping_after_pipe [OF Response assms(1) pipe]
      have p: "persist e ?s' = (r, st')" by simp
      show ?thesis
      proof (cases "json_dump e ?path (product_info ?s') = Written")
        case True
        from persist_written [OF True] p s
        have "assets (product_info st') = None"
          and "files st' = files st @ [(?path, Json (product_info s))]"
          by auto
        with s(2) show ?thesis by auto
      next
        case False
        from persist_failure [OF False] p s
        have "assets (product_info st') = None" and "files st' = files st @ []"
          by auto
        then show ?thesis by (metis empty_iff empty_set)
      qed
    qed
  qed (use run assms(3) in \<open>auto simp: run_scrapping_def get_response_def log_msg_def\<close>)
  then show "assets (product_info st') = None"
    and "\<exists>new. files st' = files st @ new \<and>
               (\<forall>(p, w)\<in>set new. \<exists>record. w = Json record \<and> assets record = None)"
    by blast+
qed

theorem download_assets_without_drawings_tab_witness:
  "product_image page_M1 = Some ''https://www.baldor.com/M1.jpg'' \<and>
   info_packet page_M1 = Some ''https://www.baldor.com/M1.pdf'' \<and>
   download_assets example_env (example_state\<lparr>driver := Some page_M1\<rparr>) =
     (Inr (), example_state\<lparr>driver := Some page_M1\<rparr>) \<and>
   assets (product_info (snd (run_scrapping example_env (PRODUCT_URL @ ''M1'') example_state))) = None"
proof -
  have a: "render example_env (PRODUCT_URL @ ''M1'') = Some page_M1" by code_simp
  have b: "\<not> drawings_tab page_M1" by code_simp
  have c: "assets (product_info example_state) = None" by code_simp
  have i: "product_image page_M1 = Some ''https://www.baldor.com/M1.jpg''" by code_simp
  have j: "info_packet page_M1 = Some ''https://www.baldor.com/M1.pdf''" by code_simp
  note t = download_assets_without_drawings_tab [OF a b c]
  have "download_assets example_env (example_state\<lparr>driver := Some page_M1\<rparr>) =
     (Inr (), example_state\<lparr>driver := Some page_M1\<rparr>)"
    using t by simp
  moreover have "assets (product_info (snd (run_scrapping example_env (PRODUCT_URL @ ''M1'') example_state))) = None"
    using t by (metis prod.collapse)
  ultimately show ?thesis using i j by blast
qed

section \<open>The product id at persistence\<close>

lemma download_assets_no_id:
  "driver s = Some pg \<Longrightarrow> drawings_tab pg \<Longrightarrow> product_id (product_info s) = None \<Longrightarrow>
     download_assets e s = (Inl TypeError, s)"
  by (simp add: download_assets_def)

lemma run_pipe_no_id:
  assumes "run_pipe e st = (r, st')" and "driver st = Some pg"
    and "page_title pg = None" and "drawings_tab pg"
  shows "(\<exists>err. r = Inl err) \<and> files st' = files st"
  using assms(1,2)
proof (cases rule: pipe_before_assets)
  case (early err)
  then show ?thesis by simp
next
  case (assets s)
  with download_assets_no_id [OF assets(4) assms(4), of e] assms(3) show ?thesis by simp
qed

lemma run_pipe_no_parts_no_drawings:
  assumes "driver st = Some pg" and "\<not> parts_tab pg" and "\<not> drawings_tab pg"
  shows "fst (run_pipe e st) = Inr ()"
  using assms
  by (auto simp: run_pipe_def get_head_def get_specs_def get_bom_def download_assets_def
      log_msg_def split: option.splits)

lemma metadata_files_append:
  "files st' = files st @ bs \<Longrightarrow> list_all (\<lambda>(p, w). is_download w) bs \<Longrightarrow>
     metadata_files st' = metadata_files st"
  by (auto simp: metadata_files_def list_all_iff filter_empty_conv)

text \<open>
  C6, as the code has it. For a product whose probe and page load succeed: when
  \<open>run_scrapping\<close> returns, every record it has written carries as product id what
  \<open>get_head\<close> read from the page title, null when the page has no title element, and
  lies in the file named after it (\<open>None.json\<close> for a null id); when the write
  succeeds that file is there. Without a title, the run raises and writes no file if the
  page has the drawings tab. A page with neither the parts tab nor the drawings tab
  always reaches the write, with or without a title.
\<close>

theorem persisted_product_id:
  fixes e :: "'f env"
  assumes "http_get e product_url = Response body" and "render e product_url = Some pg"
  shows "(\<forall>st'. run_scrapping e product_url st = (Inr (), st') \<longrightarrow>
            (\<exists>new. files st' = files st @ new \<and>
               (\<forall>p data. (p, Json data) \<in> set new \<longrightarrow>
                  product_id data = page_title pg \<and>
                  p = ''output/metadata/'' @ str_of (page_title pg) @ ''.json'') \<and>
               ((\<forall>data. json_dump e (''output/metadata/'' @ str_of (page_title pg) @ ''.json'') data
                    = Written) \<longrightarrow>
                  (\<exists>data. (''output/metadata/'' @ str_of (page_title pg) @ ''.json'', Json data) \<in> set new
                     \<and> product_id data = page_title pg)))) \<and>
         (page_title pg = None \<and> drawings_tab pg \<longrightarrow>
            (\<exists>err st'. run_scrapping e product_url st = (Inl err, st') \<and> files st' = files st)) \<and>
         (\<not> parts_tab pg \<and> \<not> drawings_tab pg \<longrightarrow> fst (run_scrapping e product_url st) = Inr ())"
proof -
  let ?loaded = "(log_msg INFO (''Scrapping: '' @ product_url) st)
                       \<lparr>driver := Some pg, sessions := Suc (sessions st)\<rparr>"
  let ?path = "''output/metadata/'' @ str_of (page_title pg) @ ''.json''"
  obtain r0 s where pipe: "run_pipe e ?loaded = (r0, s)" by (cases "run_pipe e ?loaded")
  have l: "driver ?loaded = Some pg" by simp
  note after = run_scrapping_after_pipe [OF assms pipe]
  from run_pipe_frame [OF pipe l]
  obtain bs where pid: "product_id (product_info s) = page_title pg"
    and fs: "files s = files st @ bs" and bs: "list_all (\<lambda>(p, w). is_download w) bs"
    by (auto simp: log_msg_def)
  have no_json: "\<And>p data. (p, Json data) \<notin> set bs"
    using bs by (auto simp: list_all_iff is_download_def)
  have first: "\<forall>st'. run_scrapping e product_url st = (Inr (), st') \<longrightarrow>
            (\<exists>new. files st' = files st @ new \<and>
               (\<forall>p data. (p, Json data) \<in> set new \<longrightarrow>
                  product_id data = page_title pg \<and> p = ?path) \<and>
               ((\<forall>data. json_dump e ?path data = Written) \<longrightarrow>
                  (\<exists>data. (?path, Json data) \<in> set new \<and> product_id data = page_title pg)))"
  proof (intro allI impI)
    fix st' :: "'f state"
    assume run: "run_scrapping e product_url st = (Inr (), st')"
    let ?s' = "s\<lparr>sessions := sessions st\<rparr>"
    have path: "''output/metadata/'' @ str_of (product_id (product_info ?s')) @ ''.json'' = ?path"
      using pid by simp
    from run after have p: "persist e ?s' = (Inr (), st')" by (cases r0) simp_all
    show "\<exists>new. files st' = files st @ new \<and>
               (\<forall>p data. (p, Json data) \<in> set new \<longrightarrow>
                  product_id data = page_title pg \<and> p = ?path) \<and>
               ((\<forall>data. json_dump e ?path data = Written) \<longrightarrow>
                  (\<exists>data. (?path, Json data) \<in> set new \<and> product_id data = page_title pg))"
    proof (cases "json_dump e (''output/metadata/'' @ str_of (product_id (product_info ?s')) @ ''.json'')
        (product_info ?s') = Written")
      case True
      from persist_written [OF True] p
      have "files st' = files ?s' @ [(''output/metadata/'' @ str_of (product_id (product_info ?s')) @ ''.json'',
          Json (product_info ?s'))]"
        by auto
      then have f: "files st' = files st @ (bs @ [(?path, Json (product_info s))])"
        using fs path by simp
      show ?thesis
      proof (rule exI [of _ "bs @ [(?path, Json (product_info s))]"], intro conjI allI impI)
        show "files st' = files st @ (bs @ [(?path, Json (product_info s))])" by (rule f)
      next
        fix p data
        assume "(p, Json data) \<in> set (bs @ [(?path, Json (product_info s))])"
        with no_json have "p = ?path \<and> data = product_info s" by auto
        with pid show "product_id data = page_title pg" and "p = ?path" by simp_all
      next
        show "\<exists>data. (?path, Json data) \<in> set (bs @ [(?path, Json (product_info s))]) \<and>
            product_id data = page_title pg"
          using pid by auto
      qed
    next
      case False
      from persist_failure [OF False] p
      have f: "files st' = files st @ bs" using fs by auto
      have nw: "json_dump e ?path (product_info s) \<noteq> Written"
        using False path by simp
      show ?thesis
      proof (rule exI [of _ bs], intro conjI allI impI)
        show "files st' = files st @ bs" by (rule f)
      next
        fix p data
        assume "(p, Json data) \<in> set bs"
        with no_json show "product_id data = page_title pg" and "p = ?path" by simp_all
      next
        assume "\<forall>data. json_dump e ?path data = Written"
        with nw show "\<exists>data. (?path, Json data) \<in> set bs \<and> product_id data = page_title pg"
          by simp
      qed
    qed
  qed
  have second: "page_title pg = None \<and> drawings_tab pg \<longrightarrow>
            (\<exists>err st'. run_scrapping e product_url st = (Inl err, st') \<and> files st' = files st)"
  proof
    assume a: "page_title pg = None \<and> drawings_tab pg"
    from run_pipe_no_id [OF pipe l] a
    obtain err where "r0 = Inl err" and "files s = files st"
      by (auto simp: log_msg_def)
    with after show "\<exists>err st'. run_scrapping e product_url st = (Inl err, st') \<and> files st' = files st"
      by simp
  qed
  have third: "\<not> parts_tab pg \<and> \<not> drawings_tab pg \<longrightarrow> fst (run_scrapping e product_url st) = Inr ()"
  proof
    assume a: "\<not> parts_tab pg \<and> \<not> drawings_tab pg"
    from run_pipe_no_parts_no_drawings [OF l, of e] a pipe
    have "r0 = Inr ()" by simp
    with after show "fst (run_scrapping e product_url st) = Inr ()"
      by (simp add: persist_def Let_def)
  qed
  from first second third show ?thesis by blast
qed

theorem persisted_product_id_witness:
  "(\<exists>data. (''output/metadata/None.json'', Json data) \<in>
        set (files (snd (run_scrapping example_env (PRODUCT_URL @ ''M3'') example_state))) \<and>
      product_id data = None) \<and>
   (\<exists>err. fst (run_scrapping example_env (PRODUCT_URL @ ''M6'') example_state) = Inl err)"
proof -
  let ?u3 = "PRODUCT_URL @ ''M3''"
  let ?u6 = "PRODUCT_URL @ ''M6''"
  have a3: "http_get example_env ?u3 = Response ''page''" by code_simp
  have b3: "render example_env ?u3 = Some empty_page" by code_simp
  have t3: "page_title empty_page = None" by code_simp
  have r3: "fst (run_scrapping example_env ?u3 example_state) = Inr ()" by code_simp
  have w3: "\<forall>data. json_dump example_env (''output/metadata/'' @ str_of (page_title empty_page) @ ''.json'') data
      = Written"
    by (simp add: example_env_def t3 str_of_def)
  have e3: "files example_state = []" by code_simp
  obtain st' where st': "run_scrapping example_env ?u3 example_state = (Inr (), st')"
    using r3 by (cases "run_scrapping example_env ?u3 example_state") auto
  from persisted_product_id [OF a3 b3, of example_state] st' w3
  obtain new data where "files st' = files example_state @ new"
    and "(''output/metadata/'' @ str_of (page_title empty_page) @ ''.json'', Json data) \<in> set new"
    and "product_id data = page_title empty_page"
    by blast
  then have one: "\<exists>data. (''output/metadata/None.json'', Json data) \<in>
        set (files (snd (run_scrapping example_env ?u3 example_state))) \<and> product_id data = None"
    using st' e3 t3 by (auto simp: str_of_def)
  have a6: "http_get example_env ?u6 = Response ''page''" by code_simp
  have b6: "render example_env ?u6 = Some page_M6" by code_simp
  have t6: "page_title page_M6 = None \<and> drawings_tab page_M6" by code_simp
  from persisted_product_id [OF a6 b6, of example_state] t6
  have two: "\<exists>err. fst (run_scrapping example_env ?u6 example_state) = Inl err"
    by (metis fst_conv)
  from one two show ?thesis by (rule conjI)
qed

text \<open>
  C6 as stated fails: the page of \<open>M3\<close> has no title element and no drawings tab. The run
  returns, and the record is written to \<open>None.json\<close> with a null product id.
\<close>

theorem null_product_id_persisted:
  "fst (run_scrapping example_env (PRODUCT_URL @ ''M3'') example_state) = Inr () \<and>
   files (snd (run_scrapping example_env (PRODUCT_URL @ ''M3'') example_state)) =
     [(''output/metadata/None.json'', Json JsonSchema)] \<and>
   product_id (JsonSchema :: int json_schema) = None"
  by code_simp

section \<open>Closing the browser session\<close>

text \<open>
  C7, as the code has it. For a product whose probe and page load succeed,
  \<open>run_scrapping\<close> has no handler around the stages: it returns exactly when the four
  stages return, and then the session it started is quit; when a stage raises, the
  exception leaves \<open>run_scrapping\<close> with the session still open and no record written.
\<close>

theorem close_only_after_all_stages:
  fixes e :: "'f env"
  assumes "http_get e product_url = Response body" and "render e product_url = Some pg"
  shows "fst (run_scrapping e product_url st) =
           fst (run_pipe e ((log_msg INFO (''Scrapping: '' @ product_url) st)
                  \<lparr>driver := Some pg, sessions := Suc (sessions st)\<rparr>)) \<and>
         (\<forall>st'. run_scrapping e product_url st = (Inr (), st') \<longrightarrow> sessions st' = sessions st) \<and>
         (\<forall>err st'. run_scrapping e product_url st = (Inl err, st') \<longrightarrow>
            sessions st' = Suc (sessions st) \<and> metadata_files st' = metadata_files st)"
proof -
  let ?loaded = "(log_msg INFO (''Scrapping: '' @ product_url) st)
                       \<lparr>driver := Some pg, sessions := Suc (sessions st)\<rparr>"
  obtain r0 s where pipe: "run_pipe e ?loaded = (r0, s)" by (cases "run_pipe e ?loaded")
  have l: "driver ?loaded = Some pg" by simp
  note after = run_scrapping_after_pipe [OF assms pipe]
  from run_pipe_frame [OF pipe l]
  obtain bs where ses: "sessions s = Suc (sessions st)"
    and fs: "files s = files st @ bs" and bs: "list_all (\<lambda>(p, w). is_download w) bs"
    by (auto simp: log_msg_def)
  have meta: "metadata_files s = metadata_files st"
    using fs bs by (rule metadata_files_append)
  show ?thesis
  proof (cases r0)
    case (Inl err)
    with after have "run_scrapping e product_url st = (Inl err, s)" by simp
    then show ?thesis using pipe Inl ses meta by simp
  next
    case (Inr u)
    let ?s' = "s\<lparr>sessions := sessions st\<rparr>"
    from Inr after have run: "run_scrapping e product_url st = persist e ?s'" by simp
    have "fst (persist e ?s') = Inr ()" by (simp add: persist_def Let_def)
    moreover have "sessions (snd (persist e ?s')) = sessions st"
      by (cases "json_dump e (''output/metadata/'' @ str_of (product_id (product_info ?s')) @ ''.json'')
            (product_info ?s')")
         (simp_all add: persist_def Let_def json_write_def log_msg_def)
    ultimately show ?thesis using run pipe Inr by (auto simp: prod_eq_iff)
  qed
qed

theorem close_only_after_all_stages_witness:
  "sessions (snd (run_scrapping example_env (PRODUCT_URL @ ''M2'') example_state)) =
     Suc (sessions example_state) \<and>
   sessions (snd (run_scrapping example_env (PRODUCT_URL @ ''M1'') example_state)) =
     sessions example_state"
proof -
  let ?u2 = "PRODUCT_URL @ ''M2''"
  let ?u1 = "PRODUCT_URL @ ''M1''"
  have a2: "http_get example_env ?u2 = Response ''page''" by code_simp
  have b2: "render example_env ?u2 = Some page_M2" by code_simp
  have r2: "fst (run_scrapping example_env ?u2 example_state) = Inl ValueError" by code_simp
  have a1: "http_get example_env ?u1 = Response ''page''" by code_simp
  have b1: "render example_env ?u1 = Some page_M1" by code_simp
  have r1: "fst (run_scrapping example_env ?u1 example_state) = Inr ()" by code_simp
  from close_only_after_all_stages [OF a2 b2, of example_state] r2
  have one: "sessions (snd (run_scrapping example_env ?u2 example_state)) = Suc (sessions example_state)"
    by (metis prod.collapse)
  from close_only_after_all_stages [OF a1 b1, of example_state] r1
  have two: "sessions (snd (run_scrapping example_env ?u1 example_state)) = sessions example_state"
    by (metis prod.collapse)
  from one two show ?thesis by (rule conjI)
qed

text \<open>
  C7 as stated fails: on the page of \<open>M2\<close> the BOM stage raises ValueError after the page
  was loaded, and the run ends with the browser session open.
\<close>

theorem session_left_open:
  "fst (run_scrapping example_env (PRODUCT_URL @ ''M2'') example_state) = Inl ValueError \<and>
   sessions example_state = 0 \<and>
   sessions (snd (run_scrapping example_env (PRODUCT_URL @ ''M2'') example_state)) = 1"
  by code_simp

end
